theory Spec2Isabelle
  imports Main "HOL-Library.Sublist"
begin

section \<open>Strings and characters\<close>

text \<open>
  A JavaScript string is modelled as a \<^typ>\<open>string\<close>, one \<^typ>\<open>char\<close> per UTF-16 code
  unit, for strings whose code units all lie in U+0000..U+00FF. On that range
  \<^verbatim>\<open>toLowerCase\<close> works code unit by code unit, and the classes \<^verbatim>\<open>\s\<close>, \<^verbatim>\<open>\d\<close>,
  \<^verbatim>\<open>\b\<close> and \<^verbatim>\<open>.\<close> of a non-unicode regular expression are the ones written below.
\<close>

definition code :: "char \<Rightarrow> nat" where
  "code c = of_char c"

definition is_upper :: "char \<Rightarrow> bool" where
  "is_upper c = (65 \<le> code c \<and> code c \<le> 90)"

definition is_lower :: "char \<Rightarrow> bool" where
  "is_lower c = (97 \<le> code c \<and> code c \<le> 122)"

definition is_digit :: "char \<Rightarrow> bool" where
  "is_digit c = (48 \<le> code c \<and> code c \<le> 57)"

definition is_letter :: "char \<Rightarrow> bool" where
  "is_letter c = (is_upper c \<or> is_lower c)"

text \<open>\<^verbatim>\<open>\w\<close>: the characters that count as part of a word for \<^verbatim>\<open>\b\<close>.\<close>

definition is_word :: "char \<Rightarrow> bool" where
  "is_word c = (is_letter c \<or> is_digit c \<or> c = CHR ''_'')"

text \<open>
  \<^verbatim>\<open>\s\<close> and the characters removed by \<^verbatim>\<open>trim\<close>: TAB, LF, VT, FF, CR, SPACE and
  NO-BREAK SPACE (the only white space and line terminators below U+0100).
\<close>

definition is_space :: "char \<Rightarrow> bool" where
  "is_space c = (code c \<in> {9, 10, 11, 12, 13, 32, 160})"

text \<open>Line terminators, which \<^verbatim>\<open>.\<close> does not match.\<close>

definition is_line_terminator :: "char \<Rightarrow> bool" where
  "is_line_terminator c = (code c = 10 \<or> code c = 13)"

text \<open>
  \<^verbatim>\<open>toLowerCase\<close> on one code unit: A-Z, and the Latin-1 capitals U+00C0..U+00DE
  without the multiplication sign U+00D7, move up by 32.
\<close>

definition lower_char :: "char \<Rightarrow> char" where
  "lower_char c =
     (if is_upper c \<or> (192 \<le> code c \<and> code c \<le> 222 \<and> code c \<noteq> 215)
      then char_of (code c + 32) else c)"

definition toLowerCase :: "string \<Rightarrow> string" where
  "toLowerCase s = map lower_char s"

text \<open>\<^verbatim>\<open>trim\<close>: white space is removed from both ends.\<close>

definition trim :: "string \<Rightarrow> string" where
  "trim s = rev (dropWhile is_space (rev (dropWhile is_space s)))"

text \<open>\<^verbatim>\<open>haystack.includes(needle)\<close>: the needle starts at some position of the haystack.\<close>

fun includes_str :: "string \<Rightarrow> string \<Rightarrow> bool" where
  "includes_str [] t = (t = [])"
| "includes_str (c # cs) t = (prefix t (c # cs) \<or> includes_str cs t)"

text \<open>
  \<^verbatim>\<open>s.replace(pat, rep)\<close> with a string pattern: the first occurrence only. The
  replacement texts used by the program contain no \<^verbatim>\<open>$\<close>, so they are inserted as they are.
\<close>

fun replace :: "string \<Rightarrow> string \<Rightarrow> string \<Rightarrow> string" where
  "replace [] pat rep = (if pat = [] then rep else [])"
| "replace (c # cs) pat rep =
     (if prefix pat (c # cs) then rep @ drop (length pat) (c # cs)
      else c # replace cs pat rep)"

section \<open>normalize\<close>

text \<open>
  The characters of the class \<^verbatim>\<open>[.,\/#!$%\^&\*;:{}=\-_`~()]\<close>, which \<^verbatim>\<open>normalize\<close> deletes.
\<close>

definition punctuation :: "char list" where
  "punctuation =
     [CHR ''.'', CHR '','', CHR ''/'', CHR ''#'', CHR ''!'', CHR ''$'', CHR ''%'', CHR ''^'',
      CHR ''&'', CHR ''*'', CHR '';'', CHR '':'', CHR ''{'', CHR ''}'', CHR ''='', CHR ''-'',
      CHR ''_'', CHR 0x60, CHR ''~'', CHR ''('', CHR '')'']"

definition strip_punctuation :: "string \<Rightarrow> string" where
  "strip_punctuation s = filter (\<lambda>c. c \<notin> set punctuation) s"

text \<open>
  \<^verbatim>\<open>replace(/\s{2,}/g, " ")\<close>: scanning from the left, a white space character followed by
  another starts a match, which greedily takes the whole run and is replaced by one
  space; any other character is copied.
\<close>

function collapse_spaces :: "string \<Rightarrow> string" where
  "collapse_spaces [] = []"
| "collapse_spaces (c # cs) =
     (if is_space c \<and> cs \<noteq> [] \<and> is_space (hd cs)
      then CHR '' '' # collapse_spaces (dropWhile is_space cs)
      else c # collapse_spaces cs)"
  by pat_completeness auto
termination
  by (relation "measure length") (auto simp: less_Suc_eq_le length_dropWhile_le)

text \<open>
  \<^verbatim>\<open>normalize(text)\<close> (the name \<open>normalize\<close> is taken in HOL). The argument is \<open>None\<close> when the caller passes \<^verbatim>\<open>undefined\<close>;
  \<^verbatim>\<open>!text\<close> holds for \<^verbatim>\<open>undefined\<close> and for the empty string.
\<close>

definition normalize_text :: "string option \<Rightarrow> string" where
  "normalize_text text =
     (case text of
        None \<Rightarrow> []
      | Some t \<Rightarrow>
          if t = [] then []
          else trim (collapse_spaces (strip_punctuation (toLowerCase t))))"

section \<open>Regular expressions\<close>

text \<open>
  The program matches with the regular expressions of the JavaScript runtime. They are
  modelled by a syntax tree and a backtracking matcher that returns every way a pattern
  can match at a position, in the order in which the runtime tries them: the first
  element is the match the runtime reports.
\<close>

datatype regex =
    Lit char
  | AnyChar
  | Digit
  | Space
  | Class "(char \<times> char) list"
  | WordB
  | Empty
  | Seq regex regex
  | Alt regex regex
  | Star regex
  | Plus regex
  | Opt regex
  | Grp regex
  | Cap nat regex

text \<open>
  A matcher state: the character before the current position (\<open>None\<close> at the start of
  the input), the input from the current position on, and the captures made so far.
\<close>

type_synonym mstate = "char option \<times> string \<times> (nat \<times> string) list"

definition prev_of :: "mstate \<Rightarrow> char option" where
  "prev_of st = fst st"

definition rest_of :: "mstate \<Rightarrow> string" where
  "rest_of st = fst (snd st)"

definition caps_of :: "mstate \<Rightarrow> (nat \<times> string) list" where
  "caps_of st = snd (snd st)"

text \<open>
  Canonicalize of the \<^verbatim>\<open>i\<close> flag (no \<^verbatim>\<open>u\<close> flag): a character is compared by its upper
  case. Below U+0100 the lower-case letters a-z and U+00E0..U+00FE without the division
  sign U+00F7 have an upper case in range; the sharp s, the micro sign and the y with
  diaeresis are equal to no other character of the range and stay as they are.
\<close>

definition canonicalize :: "bool \<Rightarrow> char \<Rightarrow> char" where
  "canonicalize ic c =
     (if ic \<and> (is_lower c \<or> (224 \<le> code c \<and> code c \<le> 254 \<and> code c \<noteq> 247))
      then char_of (code c - 32) else c)"

definition in_ranges :: "(char \<times> char) list \<Rightarrow> char \<Rightarrow> bool" where
  "in_ranges rs c = list_ex (\<lambda>(lo, hi). code lo \<le> code c \<and> code c \<le> code hi) rs"

text \<open>
  A class matches a character when some member has the same canonical form: without the
  \<^verbatim>\<open>i\<close> flag the character itself, with it the upper-case or the lower-case form.
\<close>

definition in_class :: "bool \<Rightarrow> (char \<times> char) list \<Rightarrow> char \<Rightarrow> bool" where
  "in_class ic rs c =
     (if ic then in_ranges rs (canonicalize True c) \<or> in_ranges rs (lower_char (canonicalize True c))
      else in_ranges rs c)"

text \<open>One character is consumed when it satisfies the test.\<close>

definition step :: "(char \<Rightarrow> bool) \<Rightarrow> mstate \<Rightarrow> mstate list" where
  "step P st =
     (case rest_of st of
        [] \<Rightarrow> []
      | c # cs \<Rightarrow> if P c then [(Some c, cs, caps_of st)] else [])"

text \<open>\<^verbatim>\<open>\b\<close>: exactly one of the characters before and after the position is a word character.\<close>

definition at_word_boundary :: "mstate \<Rightarrow> bool" where
  "at_word_boundary st =
     ((case prev_of st of None \<Rightarrow> False | Some c \<Rightarrow> is_word c) \<noteq>
      (case rest_of st of [] \<Rightarrow> False | c # _ \<Rightarrow> is_word c))"

text \<open>An iteration of a quantifier that consumes nothing is rejected.\<close>

definition progress :: "mstate \<Rightarrow> mstate \<Rightarrow> bool" where
  "progress st st' = (length (rest_of st') < length (rest_of st))"

text \<open>
  The greedy loop of \<^verbatim>\<open>*\<close>: first every match of one more iteration followed by the loop
  again, then the match that stops here. Every iteration consumes a character, so a
  number of rounds equal to the length of the remaining input is never exhausted.
\<close>

primrec repeat :: "nat \<Rightarrow> (mstate \<Rightarrow> mstate list) \<Rightarrow> mstate \<Rightarrow> mstate list" where
  "repeat 0 f st = [st]"
| "repeat (Suc n) f st = concat (map (repeat n f) (filter (progress st) (f st))) @ [st]"

definition capture :: "nat \<Rightarrow> mstate \<Rightarrow> mstate \<Rightarrow> mstate" where
  "capture n st st' =
     (prev_of st', rest_of st',
      (n, take (length (rest_of st) - length (rest_of st')) (rest_of st)) # caps_of st')"

primrec rmatch :: "regex \<Rightarrow> bool \<Rightarrow> mstate \<Rightarrow> mstate list" where
  "rmatch (Lit p) ic st = step (\<lambda>c. canonicalize ic c = canonicalize ic p) st"
| "rmatch AnyChar ic st = step (\<lambda>c. \<not> is_line_terminator c) st"
| "rmatch Digit ic st = step is_digit st"
| "rmatch Space ic st = step is_space st"
| "rmatch (Class rs) ic st = step (in_class ic rs) st"
| "rmatch WordB ic st = (if at_word_boundary st then [st] else [])"
| "rmatch Empty ic st = [st]"
| "rmatch (Seq a b) ic st = concat (map (rmatch b ic) (rmatch a ic st))"
| "rmatch (Alt a b) ic st = rmatch a ic st @ rmatch b ic st"
| "rmatch (Star a) ic st = repeat (length (rest_of st)) (rmatch a ic) st"
| "rmatch (Plus a) ic st =
     concat (map (\<lambda>st'. repeat (length (rest_of st')) (rmatch a ic) st') (rmatch a ic st))"
| "rmatch (Opt a) ic st = filter (progress st) (rmatch a ic st) @ [st]"
| "rmatch (Grp a) ic st = rmatch a ic st"
| "rmatch (Cap n a) ic st = map (capture n st) (rmatch a ic st)"

text \<open>
  \<^verbatim>\<open>exec\<close> of a regular expression without the \<^verbatim>\<open>g\<close> flag: the start positions are
  tried from the left, the end of the input included, and the first match is returned.
\<close>

fun exec_from :: "regex \<Rightarrow> bool \<Rightarrow> char option \<Rightarrow> string \<Rightarrow> mstate option" where
  "exec_from r ic p [] = (case rmatch r ic (p, [], []) of [] \<Rightarrow> None | st # _ \<Rightarrow> Some st)"
| "exec_from r ic p (c # cs) =
     (case rmatch r ic (p, c # cs, []) of
        [] \<Rightarrow> exec_from r ic (Some c) cs
      | st # _ \<Rightarrow> Some st)"

text \<open>\<^verbatim>\<open>s.match(re)\<close>: the captures of the first match, or \<open>None\<close> for \<^verbatim>\<open>null\<close>.\<close>

definition match :: "string \<Rightarrow> regex \<Rightarrow> bool \<Rightarrow> (nat \<times> string) list option" where
  "match s r ic = map_option caps_of (exec_from r ic None s)"

text \<open>\<^verbatim>\<open>re.test(s)\<close>.\<close>

definition test :: "regex \<Rightarrow> bool \<Rightarrow> string \<Rightarrow> bool" where
  "test r ic s = (exec_from r ic None s \<noteq> None)"

text \<open>\<^verbatim>\<open>m[n]\<close> of a match array; every group of the patterns below takes part in a match.\<close>

definition group :: "(nat \<times> string) list \<Rightarrow> nat \<Rightarrow> string" where
  "group m n = (case map_of m n of None \<Rightarrow> [] | Some s \<Rightarrow> s)"

section \<open>Building a regular expression from its source text\<close>

text \<open>
  \<^verbatim>\<open>new RegExp(source, 'i')\<close> parses a text that the program assembles at run time, so the
  model parses it too. The parser covers the syntax that the assembled texts use:
  literal characters, \<^verbatim>\<open>.\<close>, the escapes \<^verbatim>\<open>\b\<close>, \<^verbatim>\<open>\s\<close>, \<^verbatim>\<open>\d\<close> and escaped syntax
  characters, the greedy quantifiers \<^verbatim>\<open>*\<close>, \<^verbatim>\<open>+\<close>, \<^verbatim>\<open>?\<close>, alternation and the group
  \<^verbatim>\<open>(?:...)\<close>. The result is \<open>None\<close> where the runtime raises a SyntaxError (nothing to
  repeat, unbalanced parentheses, a lone backslash) and for syntax outside this fragment.
\<close>

text \<open>A backslash followed by a character (a string literal cannot hold a backslash).\<close>

definition esc :: "char \<Rightarrow> string" where
  "esc c = [CHR 0x5C, c]"

definition syntax_char :: "char \<Rightarrow> bool" where
  "syntax_char c = (c \<in> set ''^$.*+?()[]{}|'' \<or> c = CHR 0x5C)"

definition escape :: "char \<Rightarrow> regex option" where
  "escape e =
     (if e = CHR ''b'' then Some WordB
      else if e = CHR ''s'' then Some Space
      else if e = CHR ''d'' then Some Digit
      else if syntax_char e \<or> e = CHR ''/'' then Some (Lit e)
      else None)"

datatype token = TAtom regex | TStar | TPlus | TQuest | TBar | TOpen | TClose

fun tokenize :: "string \<Rightarrow> token list option" where
  "tokenize [] = Some []"
| "tokenize (c # cs) =
     (if c = CHR 0x5C then
        (case cs of
           [] \<Rightarrow> None
         | e # r \<Rightarrow>
             (case escape e of
                None \<Rightarrow> None
              | Some a \<Rightarrow> map_option ((#) (TAtom a)) (tokenize r)))
      else if c = CHR ''('' then
        (case cs of
           q # k # r \<Rightarrow>
             if q = CHR ''?'' \<and> k = CHR '':'' then map_option ((#) TOpen) (tokenize r)
             else None
         | _ \<Rightarrow> None)
      else if c = CHR '')'' then map_option ((#) TClose) (tokenize cs)
      else if c = CHR ''|'' then map_option ((#) TBar) (tokenize cs)
      else if c = CHR ''*'' then map_option ((#) TStar) (tokenize cs)
      else if c = CHR ''+'' then map_option ((#) TPlus) (tokenize cs)
      else if c = CHR ''?'' then map_option ((#) TQuest) (tokenize cs)
      else if c = CHR ''.'' then map_option ((#) (TAtom AnyChar)) (tokenize cs)
      else if syntax_char c then None
      else map_option ((#) (TAtom (Lit c))) (tokenize cs))"

text \<open>A sequence of terms, and an alternation of sequences.\<close>

fun mk_seq :: "regex list \<Rightarrow> regex" where
  "mk_seq [] = Empty"
| "mk_seq [x] = x"
| "mk_seq (x # xs) = Seq x (mk_seq xs)"

fun mk_alt :: "regex list \<Rightarrow> regex" where
  "mk_alt [] = Empty"
| "mk_alt [x] = x"
| "mk_alt (x # xs) = Alt x (mk_alt xs)"

text \<open>
  A quantifier applies to an atom or a group, not to an assertion and not to a term
  that already has a quantifier.
\<close>

fun quantifiable :: "regex \<Rightarrow> bool" where
  "quantifiable WordB = False"
| "quantifiable (Star _) = False"
| "quantifiable (Plus _) = False"
| "quantifiable (Opt _) = False"
| "quantifiable _ = True"

text \<open>
  A frame holds the finished alternatives and the terms of the current alternative of
  one group, both latest first; the stack holds the frames of the enclosing groups.
\<close>

type_synonym frame = "regex list \<times> regex list"

definition close_frame :: "frame \<Rightarrow> regex" where
  "close_frame fr = mk_alt (rev (mk_seq (rev (snd fr)) # fst fr))"

definition quantify :: "(regex \<Rightarrow> regex) \<Rightarrow> frame \<Rightarrow> frame option" where
  "quantify q fr =
     (case snd fr of
        [] \<Rightarrow> None
      | x # xs \<Rightarrow> if quantifiable x then Some (fst fr, q x # xs) else None)"

fun parse_tokens :: "token list \<Rightarrow> frame \<Rightarrow> frame list \<Rightarrow> regex option" where
  "parse_tokens [] fr stk = (if stk = [] then Some (close_frame fr) else None)"
| "parse_tokens (TAtom a # ts) fr stk = parse_tokens ts (fst fr, a # snd fr) stk"
| "parse_tokens (TStar # ts) fr stk =
     (case quantify Star fr of None \<Rightarrow> None | Some fr' \<Rightarrow> parse_tokens ts fr' stk)"
| "parse_tokens (TPlus # ts) fr stk =
     (case quantify Plus fr of None \<Rightarrow> None | Some fr' \<Rightarrow> parse_tokens ts fr' stk)"
| "parse_tokens (TQuest # ts) fr stk =
     (case quantify Opt fr of None \<Rightarrow> None | Some fr' \<Rightarrow> parse_tokens ts fr' stk)"
| "parse_tokens (TBar # ts) fr stk = parse_tokens ts (mk_seq (rev (snd fr)) # fst fr, []) stk"
| "parse_tokens (TOpen # ts) fr stk = parse_tokens ts ([], []) (fr # stk)"
| "parse_tokens (TClose # ts) fr stk =
     (case stk of
        [] \<Rightarrow> None
      | up # stk' \<Rightarrow> parse_tokens ts (fst up, Grp (close_frame fr) # snd up) stk')"

definition RegExp :: "string \<Rightarrow> regex option" where
  "RegExp source =
     (case tokenize source of
        None \<Rightarrow> None
      | Some ts \<Rightarrow> parse_tokens ts ([], []) [])"

section \<open>The verification report\<close>

text \<open>
  The form input, as the engine reads it: a field is \<open>None\<close> when the object has no such
  property (\<^verbatim>\<open>undefined\<close>). The text fields are strings. The alcohol content is a number;
  the model covers the integers, which \<^verbatim>\<open>String\<close> renders in plain decimal notation
  (magnitudes below 10^21).
\<close>

record form_input =
  brandName :: "string option"
  productClass :: "string option"
  alcoholContent :: "int option"
  netContents :: "string option"

text \<open>One row of the report; \<open>expected\<close> is \<open>None\<close> when the echoed property is undefined.\<close>

record field_check =
  field :: string
  status :: string
  expected :: "string option"

record report =
  overall_match :: bool
  discrepancies :: "field_check list"

text \<open>The exceptions that the engine can raise.\<close>

datatype error = TypeError | SyntaxError

text \<open>\<^verbatim>\<open>x || ''\<close> for a string or undefined \<open>x\<close>.\<close>

definition or_empty :: "string option \<Rightarrow> string" where
  "or_empty x = (case x of None \<Rightarrow> [] | Some s \<Rightarrow> s)"

text \<open>\<^verbatim>\<open>x || 0\<close> for a number or undefined \<open>x\<close>.\<close>

definition or_zero :: "int option \<Rightarrow> int" where
  "or_zero x = (case x of None \<Rightarrow> 0 | Some n \<Rightarrow> n)"

text \<open>\<^verbatim>\<open>String(n)\<close> for an integer.\<close>

fun digits_of :: "nat \<Rightarrow> string" where
  "digits_of n =
     (if n < 10 then [char_of (48 + n)]
      else digits_of (n div 10) @ [char_of (48 + n mod 10)])"

definition String_of :: "int \<Rightarrow> string" where
  "String_of n = (if n < 0 then CHR ''-'' # digits_of (nat (- n)) else digits_of (nat n))"

text \<open>\<^verbatim>\<open>x + '...'\<close> for a number or undefined \<open>x\<close>: the left operand as a string.\<close>

definition to_text :: "int option \<Rightarrow> string" where
  "to_text x = (case x of None \<Rightarrow> ''undefined'' | Some n \<Rightarrow> String_of n)"

text \<open>The status texts.\<close>

definition Match :: string where
  "Match = ''Match''"

definition NotFoundOrMismatch :: string where
  "NotFoundOrMismatch = ''Not Found/Mismatch''"

definition MismatchUnitMissing :: string where
  "MismatchUnitMissing = ''Mismatch (Unit Missing)''"

text \<open>
  The source text of \<^verbatim>\<open>abvRegex\<close>:
  \<^verbatim>\<open>\b${alcoholContent}(?:\.0)?\s*%\s*(?:alc\.|vol\.|by\s*vol\.)?|\b${alcoholContent}(?:\.0)?\s*%\<close>
\<close>

definition abv_source :: "string \<Rightarrow> string" where
  "abv_source alcoholContent' =
     esc CHR ''b'' @ alcoholContent' @ ''(?:'' @ esc CHR ''.'' @ ''0)?'' @ esc CHR ''s'' @ ''*%''
       @ esc CHR ''s'' @ ''*(?:alc'' @ esc CHR ''.'' @ ''|vol'' @ esc CHR ''.'' @ ''|by''
       @ esc CHR ''s'' @ ''*vol'' @ esc CHR ''.'' @ '')?|''
       @ esc CHR ''b'' @ alcoholContent' @ ''(?:'' @ esc CHR ''.'' @ ''0)?'' @ esc CHR ''s'' @ ''*%''"

text \<open>The literal \<^verbatim>\<open>/(\d+\.?\d*)\s*([a-zA-Z]+)/i\<close>.\<close>

definition netContents_re :: regex where
  "netContents_re =
     Seq (Cap 1 (Seq (Plus Digit) (Seq (Opt (Lit CHR ''.'')) (Star Digit))))
       (Seq (Star Space)
         (Cap 2 (Plus (Class [(CHR ''a'', CHR ''z''), (CHR ''A'', CHR ''Z'')]))))"

text \<open>The literal \<^verbatim>\<open>/(\d+\.?\d*)/\<close>.\<close>

definition volumeOnly_re :: regex where
  "volumeOnly_re = Cap 1 (Seq (Plus Digit) (Seq (Opt (Lit CHR ''.'')) (Star Digit)))"

text \<open>
  \<^verbatim>\<open>unit.replace('floz', 'fl\\s*oz|floz').replace('ml', 'm\\s*l|ml|milliliter|millilitres')\<close>
\<close>

definition unit_pattern :: "string \<Rightarrow> string" where
  "unit_pattern unit' =
     replace (replace unit' ''floz'' (''fl'' @ esc CHR ''s'' @ ''*oz|floz''))
       ''ml'' (''m'' @ esc CHR ''s'' @ ''*l|ml|milliliter|millilitres'')"

text \<open>The source text of \<^verbatim>\<open>searchRegex\<close>: \<^verbatim>\<open>\b${volume}\s*${unitPattern}\b\<close>.\<close>

definition search_source :: "string \<Rightarrow> string \<Rightarrow> string" where
  "search_source volume unitPattern =
     esc CHR ''b'' @ volume @ esc CHR ''s'' @ ''*'' @ unitPattern @ esc CHR ''b''"

text \<open>
  Each check below is one numbered block of \<^verbatim>\<open>performVerification\<close>. It takes the
  current value of \<^verbatim>\<open>overallMatch\<close> and returns the status of its row with the new value.
\<close>

text \<open>Blocks 1 and 2 (brand name, product class): the same code on two fields.\<close>

definition declared_check :: "string \<Rightarrow> string \<Rightarrow> bool \<Rightarrow> string \<times> bool" where
  "declared_check normalizedText declared overallMatch =
     (if length declared > 0 \<and> includes_str normalizedText declared
      then (Match, overallMatch)
      else (NotFoundOrMismatch, False))"

text \<open>Block 3 (alcohol content), once \<^verbatim>\<open>abvRegex\<close> is built.\<close>

definition abv_check :: "regex \<Rightarrow> string \<Rightarrow> string \<Rightarrow> bool \<Rightarrow> string \<times> bool" where
  "abv_check abvRegex extractedText alcoholContent' overallMatch =
     (if alcoholContent' \<noteq> ''0'' \<and> test abvRegex True extractedText
      then (Match, overallMatch)
      else (NotFoundOrMismatch, False))"

text \<open>
  Block 4 (net contents). \<open>rawNetContents\<close> is \<^verbatim>\<open>formInput.netContents\<close>, on which the
  block calls \<^verbatim>\<open>match\<close>; \<open>netContents'\<close> is its normalized form.
\<close>

definition net_check ::
  "string \<Rightarrow> string \<Rightarrow> string \<Rightarrow> bool \<Rightarrow> error + (string \<times> bool)" where
  "net_check normalizedText rawNetContents netContents' overallMatch =
     (let isMandatoryCheck = (length netContents' > 0);
          netContentsMatch = match rawNetContents netContents_re True
      in case netContentsMatch of
           Some m \<Rightarrow>
             (let volume = group m 1;
                  unit' = normalize_text (Some (group m 2));
                  unitPattern = unit_pattern unit'
              in case RegExp (search_source volume unitPattern) of
                   None \<Rightarrow> Inl SyntaxError
                 | Some searchRegex \<Rightarrow>
                     if test searchRegex True normalizedText
                     then Inr (Match, overallMatch)
                     else Inr (NotFoundOrMismatch,
                               if isMandatoryCheck then False else overallMatch))
         | None \<Rightarrow>
             if isMandatoryCheck then
               (let volumeOnly = match (normalize_text (Some rawNetContents)) volumeOnly_re False
                in case volumeOnly of
                     Some v \<Rightarrow>
                       if includes_str normalizedText (group v 1)
                       then Inr (MismatchUnitMissing, False)
                       else Inr (NotFoundOrMismatch, False)
                   | None \<Rightarrow> Inr (NotFoundOrMismatch, False))
             else Inr (NotFoundOrMismatch, overallMatch))"

text \<open>Block 5 (government warning).\<close>

definition warning_check :: "string \<Rightarrow> bool \<Rightarrow> string \<times> bool" where
  "warning_check normalizedText overallMatch =
     (let warningPhrase = ''government warning''
      in if includes_str normalizedText warningPhrase
         then (Match, overallMatch)
         else (NotFoundOrMismatch, False))"

text \<open>
  \<^verbatim>\<open>performVerification(extractedText, formInput)\<close>. The statements run in the order of
  the source: \<^verbatim>\<open>new RegExp\<close> of block 3 may raise a SyntaxError, and block 4 reads
  \<^verbatim>\<open>formInput.netContents.match\<close>, a TypeError when the property is undefined.
\<close>

definition performVerification :: "string \<Rightarrow> form_input \<Rightarrow> error + report" where
  "performVerification extractedText formInput =
     (let normalizedText = normalize_text (Some extractedText);
          brandName' = normalize_text (Some (or_empty (brandName formInput)));
          productClass' = normalize_text (Some (or_empty (productClass formInput)));
          netContents' = normalize_text (Some (or_empty (netContents formInput)));
          alcoholContent' = trim (String_of (or_zero (alcoholContent formInput)));
          (brandStatus, overallMatch1) = declared_check normalizedText brandName' True;
          (classStatus, overallMatch2) = declared_check normalizedText productClass' overallMatch1
      in case RegExp (abv_source alcoholContent') of
           None \<Rightarrow> Inl SyntaxError
         | Some abvRegex \<Rightarrow>
             (let (abvStatus, overallMatch3) =
                    abv_check abvRegex extractedText alcoholContent' overallMatch2
              in case netContents formInput of
                   None \<Rightarrow> Inl TypeError
                 | Some rawNetContents \<Rightarrow>
                     (case net_check normalizedText rawNetContents netContents' overallMatch3 of
                        Inl e \<Rightarrow> Inl e
                      | Inr (netStatus, overallMatch4) \<Rightarrow>
                          (let (warningStatus, overallMatch5) =
                                 warning_check normalizedText overallMatch4
                           in Inr \<lparr>overall_match = overallMatch5,
                                   discrepancies =
                                     [\<lparr>field = ''Brand Name'', status = brandStatus,
                                       expected = brandName formInput\<rparr>,
                                      \<lparr>field = ''Product Class/Type'', status = classStatus,
                                       expected = productClass formInput\<rparr>,
                                      \<lparr>field = ''Alcohol Content'', status = abvStatus,
                                       expected = Some (to_text (alcoholContent formInput)
                                                          @ ''% (within tolerance)'')\<rparr>,
                                      \<lparr>field = ''Net Contents'', status = netStatus,
                                       expected = Some (rawNetContents
                                                          @ (if length netContents' > 0 then []
                                                             else '' (Optional)''))\<rparr>,
                                      \<lparr>field = ''Government Warning'', status = warningStatus,
                                       expected = Some (''Phrase '' @ [CHR 0x22]
                                                          @ ''GOVERNMENT WARNING'' @ [CHR 0x22]
                                                          @ '' present'')\<rparr>]\<rparr>))))"

section \<open>Properties of a text\<close>

text \<open>No two white space characters stand next to each other.\<close>

fun single_spaced :: "string \<Rightarrow> bool" where
  "single_spaced [] = True"
| "single_spaced [c] = True"
| "single_spaced (c # d # cs) = (\<not> (is_space c \<and> is_space d) \<and> single_spaced (d # cs))"

text \<open>
  The first numeric substring of a text, in the words of the specification. A normalized
  text holds no decimal point, so this is its first maximal run of digits.
\<close>

definition first_numeric_substring :: "string \<Rightarrow> string option" where
  "first_numeric_substring s =
     (case dropWhile (\<lambda>c. \<not> is_digit c) s of
        [] \<Rightarrow> None
      | r \<Rightarrow> Some (takeWhile is_digit r))"

section \<open>Properties of patterns\<close>

text \<open>
  The pattern texts that block 4 assembles: literal characters, \<^verbatim>\<open>.\<close>, \<^verbatim>\<open>|\<close>,
  \<^verbatim>\<open>\s*\<close> and \<^verbatim>\<open>\b\<close>.
\<close>

inductive simple_source :: "string \<Rightarrow> bool" where
  simple_Nil: "simple_source []"
| simple_plain: "\<not> syntax_char c \<Longrightarrow> simple_source s \<Longrightarrow> simple_source (c # s)"
| simple_dot: "simple_source s \<Longrightarrow> simple_source (CHR ''.'' # s)"
| simple_bar: "simple_source s \<Longrightarrow> simple_source (CHR ''|'' # s)"
| simple_spaces: "simple_source s \<Longrightarrow> simple_source (CHR 0x5C # CHR ''s'' # CHR ''*'' # s)"
| simple_boundary: "simple_source s \<Longrightarrow> simple_source (CHR 0x5C # CHR ''b'' # s)"

text \<open>
  Every match of a pattern consumes characters of one kind only and leaves the captures
  as they were.
\<close>

definition consumes :: "(char \<Rightarrow> bool) \<Rightarrow> (mstate \<Rightarrow> mstate list) \<Rightarrow> bool" where
  "consumes Q f =
     (\<forall>st st'. st' \<in> set (f st) \<longrightarrow>
        (\<exists>u. rest_of st = u @ rest_of st' \<and> (\<forall>c \<in> set u. Q c) \<and> caps_of st' = caps_of st))"

section \<open>Reading a report\<close>

text \<open>
  The status of the row with a given field name, found as the tests find a row
  (\<^verbatim>\<open>discrepancies.find(d => d.field === name)\<close>).
\<close>

definition status_of :: "report \<Rightarrow> string \<Rightarrow> string option" where
  "status_of rep name = map_option status (find (\<lambda>d. field d = name) (discrepancies rep))"

text \<open>Every row of the report has the status Match.\<close>

definition every_row_matches :: "report \<Rightarrow> bool" where
  "every_row_matches rep = list_all (\<lambda>d. status d = Match) (discrepancies rep)"

section \<open>Sample labels\<close>

definition label_text :: string where
  "label_text = ''Tom Rye 45% 750 ML GOVERNMENT WARNING''"

definition warning_row :: "string \<Rightarrow> field_check" where
  "warning_row s =
     \<lparr>field = ''Government Warning'', status = s,
      expected = Some (''Phrase '' @ [CHR 0x22] @ ''GOVERNMENT WARNING'' @ [CHR 0x22]
                         @ '' present'')\<rparr>"

text \<open>Nothing is declared for the net contents.\<close>

definition form_blank_net :: form_input where
  "form_blank_net =
     \<lparr>brandName = Some ''Tom'', productClass = Some ''Rye'', alcoholContent = Some 45,
      netContents = Some []\<rparr>"

definition report_blank_net :: report where
  "report_blank_net =
     \<lparr>overall_match = True,
      discrepancies =
        [\<lparr>field = ''Brand Name'', status = ''Match'', expected = Some ''Tom''\<rparr>,
         \<lparr>field = ''Product Class/Type'', status = ''Match'', expected = Some ''Rye''\<rparr>,
         \<lparr>field = ''Alcohol Content'', status = ''Match'',
          expected = Some ''45% (within tolerance)''\<rparr>,
         \<lparr>field = ''Net Contents'', status = ''Not Found/Mismatch'',
          expected = Some '' (Optional)''\<rparr>,
         warning_row ''Match'']\<rparr>"

text \<open>Only the net contents are declared.\<close>

definition form_net_only :: form_input where
  "form_net_only =
     \<lparr>brandName = None, productClass = None, alcoholContent = None,
      netContents = Some ''750 mL''\<rparr>"

definition report_net_only :: report where
  "report_net_only =
     \<lparr>overall_match = False,
      discrepancies =
        [\<lparr>field = ''Brand Name'', status = ''Not Found/Mismatch'', expected = None\<rparr>,
         \<lparr>field = ''Product Class/Type'', status = ''Not Found/Mismatch'', expected = None\<rparr>,
         \<lparr>field = ''Alcohol Content'', status = ''Not Found/Mismatch'',
          expected = Some ''undefined% (within tolerance)''\<rparr>,
         \<lparr>field = ''Net Contents'', status = ''Match'', expected = Some ''750 mL''\<rparr>,
         warning_row ''Match'']\<rparr>"

text \<open>The net contents are declared without a unit, as in test 4 of the repository.\<close>

definition form_no_unit :: form_input where
  "form_no_unit =
     \<lparr>brandName = Some ''Tom'', productClass = Some ''Rye'', alcoholContent = Some 45,
      netContents = Some ''750''\<rparr>"

definition report_no_unit :: report where
  "report_no_unit =
     \<lparr>overall_match = False,
      discrepancies =
        [\<lparr>field = ''Brand Name'', status = ''Match'', expected = Some ''Tom''\<rparr>,
         \<lparr>field = ''Product Class/Type'', status = ''Match'', expected = Some ''Rye''\<rparr>,
         \<lparr>field = ''Alcohol Content'', status = ''Match'',
          expected = Some ''45% (within tolerance)''\<rparr>,
         \<lparr>field = ''Net Contents'', status = ''Mismatch (Unit Missing)'',
          expected = Some ''750''\<rparr>,
         warning_row ''Match'']\<rparr>"

text \<open>A label with another volume than the declared one.\<close>

definition other_volume_text :: string where
  "other_volume_text = ''500 ml''"

definition report_other_volume :: report where
  "report_other_volume =
     \<lparr>overall_match = False,
      discrepancies =
        [\<lparr>field = ''Brand Name'', status = ''Not Found/Mismatch'', expected = None\<rparr>,
         \<lparr>field = ''Product Class/Type'', status = ''Not Found/Mismatch'', expected = None\<rparr>,
         \<lparr>field = ''Alcohol Content'', status = ''Not Found/Mismatch'',
          expected = Some ''undefined% (within tolerance)''\<rparr>,
         \<lparr>field = ''Net Contents'', status = ''Match'', expected = Some ''750 mL''\<rparr>,
         warning_row ''Not Found/Mismatch'']\<rparr>"

text \<open>The form has no net contents property.\<close>

definition form_absent_net :: form_input where
  "form_absent_net =
     \<lparr>brandName = Some ''Tom'', productClass = Some ''Rye'', alcoholContent = Some 45,
      netContents = None\<rparr>"

section \<open>Evaluating the engine on the sample labels\<close>

lemma eval_blank_net: "performVerification label_text form_blank_net = Inr report_blank_net"
  by code_simp

lemma eval_net_only: "performVerification label_text form_net_only = Inr report_net_only"
  by code_simp

lemma eval_no_unit: "performVerification label_text form_no_unit = Inr report_no_unit"
  by code_simp

section \<open>The shape of a report\<close>

lemma status_distinct:
  "Match \<noteq> NotFoundOrMismatch" "Match \<noteq> MismatchUnitMissing"
  "NotFoundOrMismatch \<noteq> MismatchUnitMissing"
  by (simp_all add: Match_def NotFoundOrMismatch_def MismatchUnitMissing_def)

lemma includes_str_iff: "includes_str s t \<longleftrightarrow> (\<exists>p q. s = p @ t @ q)"
proof (induction s)
  case Nil
  then show ?case by auto
next
  case (Cons c cs)
  have "(\<exists>p q. c # cs = p @ t @ q) \<longleftrightarrow> prefix t (c # cs) \<or> (\<exists>p q. cs = p @ t @ q)"
  proof
    assume "\<exists>p q. c # cs = p @ t @ q"
    then obtain p q where pq: "c # cs = p @ t @ q" by blast
    show "prefix t (c # cs) \<or> (\<exists>p q. cs = p @ t @ q)"
    proof (cases p)
      case Nil
      with pq show ?thesis by (auto simp: prefix_def)
    next
      case (Cons a p')
      with pq have "cs = p' @ t @ q" by simp
      then show ?thesis by blast
    qed
  next
    assume "prefix t (c # cs) \<or> (\<exists>p q. cs = p @ t @ q)"
    then show "\<exists>p q. c # cs = p @ t @ q"
    proof
      assume "prefix t (c # cs)"
      then obtain q where "c # cs = t @ q" by (auto simp: prefix_def)
      then have "c # cs = [] @ t @ q" by simp
      then show ?thesis by blast
    next
      assume "\<exists>p q. cs = p @ t @ q"
      then obtain p q where "cs = p @ t @ q" by blast
      then have "c # cs = (c # p) @ t @ q" by simp
      then show ?thesis by blast
    qed
  qed
  with Cons show ?case by simp
qed

lemma declared_check_fst:
  "fst (declared_check nt d om) =
     (if d \<noteq> [] \<and> includes_str nt d then Match else NotFoundOrMismatch)"
  by (simp add: declared_check_def)

lemma declared_check_snd:
  "snd (declared_check nt d om) = (om \<and> fst (declared_check nt d om) = Match)"
  by (simp add: declared_check_def status_distinct[symmetric])

lemma abv_check_fst:
  "fst (abv_check r t ac om) =
     (if ac \<noteq> ''0'' \<and> test r True t then Match else NotFoundOrMismatch)"
  by (simp add: abv_check_def)

lemma abv_check_snd:
  "snd (abv_check r t ac om) = (om \<and> fst (abv_check r t ac om) = Match)"
  by (simp add: abv_check_def status_distinct[symmetric])

lemma warning_check_fst:
  "fst (warning_check nt om) =
     (if includes_str nt ''government warning'' then Match else NotFoundOrMismatch)"
  by (simp add: warning_check_def)

lemma net_check_overall:
  assumes "net_check nt raw nc om = Inr (ns, om')"
  shows "om' = (om \<and> (ns = Match \<or> nc = []))"
  using assms
  by (auto simp: net_check_def Let_def status_distinct status_distinct[symmetric]
           split: option.splits if_splits)

lemma or_empty_Some: "or_empty (Some s) = s"
  by (simp add: or_empty_def)

text \<open>
  What a returned report consists of: the two run-time failures did not happen, and
  rows and verdict are the results of the five blocks.
\<close>

lemma performVerification_InrE:
  assumes "performVerification t f = Inr rep"
  obtains abvRegex raw ns om3 om4 where
    "RegExp (abv_source (trim (String_of (or_zero (alcoholContent f))))) = Some abvRegex"
    "netContents f = Some raw"
    "om3 = (fst (declared_check (normalize_text (Some t))
                  (normalize_text (Some (or_empty (brandName f)))) True) = Match
            \<and> fst (declared_check (normalize_text (Some t))
                  (normalize_text (Some (or_empty (productClass f)))) True) = Match
            \<and> fst (abv_check abvRegex t (trim (String_of (or_zero (alcoholContent f))))
                  True) = Match)"
    "net_check (normalize_text (Some t)) raw (normalize_text (Some raw)) om3 = Inr (ns, om4)"
    "overall_match rep = snd (warning_check (normalize_text (Some t)) om4)"
    "map field (discrepancies rep) =
       [''Brand Name'', ''Product Class/Type'', ''Alcohol Content'', ''Net Contents'',
        ''Government Warning'']"
    "map status (discrepancies rep) =
       [fst (declared_check (normalize_text (Some t))
               (normalize_text (Some (or_empty (brandName f)))) True),
        fst (declared_check (normalize_text (Some t))
               (normalize_text (Some (or_empty (productClass f)))) True),
        fst (abv_check abvRegex t (trim (String_of (or_zero (alcoholContent f)))) True),
        ns,
        fst (warning_check (normalize_text (Some t)) True)]"
proof -
  obtain abvRegex where 1:
    "RegExp (abv_source (trim (String_of (or_zero (alcoholContent f))))) = Some abvRegex"
    using assms unfolding performVerification_def Let_def
    by (auto split: option.splits prod.splits)
  obtain raw where 2: "netContents f = Some raw"
    using assms 1 unfolding performVerification_def Let_def
    by (auto split: option.splits prod.splits)
  define om3 where "om3 =
    snd (abv_check abvRegex t (trim (String_of (or_zero (alcoholContent f))))
      (snd (declared_check (normalize_text (Some t))
              (normalize_text (Some (or_empty (productClass f))))
         (snd (declared_check (normalize_text (Some t))
                 (normalize_text (Some (or_empty (brandName f)))) True)))))"
  obtain ns om4 where 3:
    "net_check (normalize_text (Some t)) raw (normalize_text (Some raw)) om3 = Inr (ns, om4)"
    using assms 1 2 unfolding performVerification_def Let_def om3_def
    by (auto split: sum.splits prod.splits simp: or_empty_def)
  have 4: "om3 = (fst (declared_check (normalize_text (Some t))
                  (normalize_text (Some (or_empty (brandName f)))) True) = Match
            \<and> fst (declared_check (normalize_text (Some t))
                  (normalize_text (Some (or_empty (productClass f)))) True) = Match
            \<and> fst (abv_check abvRegex t (trim (String_of (or_zero (alcoholContent f))))
                  True) = Match)"
    unfolding om3_def abv_check_snd declared_check_snd
    by (simp add: declared_check_fst abv_check_fst)
  have 5: "rep = \<lparr>overall_match = snd (warning_check (normalize_text (Some t)) om4),
      discrepancies =
        [\<lparr>field = ''Brand Name'',
          status = fst (declared_check (normalize_text (Some t))
                     (normalize_text (Some (or_empty (brandName f)))) True),
          expected = brandName f\<rparr>,
         \<lparr>field = ''Product Class/Type'',
          status = fst (declared_check (normalize_text (Some t))
                     (normalize_text (Some (or_empty (productClass f)))) True),
          expected = productClass f\<rparr>,
         \<lparr>field = ''Alcohol Content'',
          status = fst (abv_check abvRegex t
                     (trim (String_of (or_zero (alcoholContent f)))) True),
          expected = Some (to_text (alcoholContent f) @ ''% (within tolerance)'')\<rparr>,
         \<lparr>field = ''Net Contents'', status = ns,
          expected = Some (raw @ (if length (normalize_text (Some raw)) > 0 then []
                                  else '' (Optional)''))\<rparr>,
         \<lparr>field = ''Government Warning'',
          status = fst (warning_check (normalize_text (Some t)) True),
          expected = Some (''Phrase '' @ [CHR 0x22] @ ''GOVERNMENT WARNING'' @ [CHR 0x22]
                             @ '' present'')\<rparr>]\<rparr>"
    using assms unfolding performVerification_def Let_def case_prod_beta
    by (simp add: 1 2 3[unfolded om3_def] or_empty_Some declared_check_fst abv_check_fst
          warning_check_fst)
  show thesis
    by (rule that[OF 1 2 4 3]) (simp_all add: 5)
qed

lemma rows_of_report:
  assumes "map field ds = [f1, f2, f3, f4, f5]" and "map status ds = [s1, s2, s3, s4, s5]"
  obtains b c a n w where "ds = [b, c, a, n, w]"
    "field b = f1" "field c = f2" "field a = f3" "field n = f4" "field w = f5"
    "status b = s1" "status c = s2" "status a = s3" "status n = s4" "status w = s5"
  using assms by (auto simp: map_eq_Cons_conv)

text \<open>The rows and the verdict of a returned report, row by row.\<close>

lemma report_rows:
  assumes "performVerification t f = Inr rep"
  obtains abvRegex raw b c a n w where
    "netContents f = Some raw"
    "discrepancies rep = [b, c, a, n, w]"
    "field b = ''Brand Name''" "field c = ''Product Class/Type''"
    "field a = ''Alcohol Content''" "field n = ''Net Contents''"
    "field w = ''Government Warning''"
    "status b = (if normalize_text (Some (or_empty (brandName f))) \<noteq> [] \<and>
                    includes_str (normalize_text (Some t))
                      (normalize_text (Some (or_empty (brandName f))))
                 then Match else NotFoundOrMismatch)"
    "status c = (if normalize_text (Some (or_empty (productClass f))) \<noteq> [] \<and>
                    includes_str (normalize_text (Some t))
                      (normalize_text (Some (or_empty (productClass f))))
                 then Match else NotFoundOrMismatch)"
    "status a = (if trim (String_of (or_zero (alcoholContent f))) \<noteq> ''0'' \<and>
                    test abvRegex True t
                 then Match else NotFoundOrMismatch)"
    "status w = (if includes_str (normalize_text (Some t)) ''government warning''
                 then Match else NotFoundOrMismatch)"
    "\<exists>om. net_check (normalize_text (Some t)) raw (normalize_text (Some raw)) om =
            Inr (status n, om \<and> (status n = Match \<or> normalize_text (Some raw) = []))"
    "overall_match rep \<longleftrightarrow>
       status b = Match \<and> status c = Match \<and> status a = Match \<and>
       (status n = Match \<or> normalize_text (Some raw) = []) \<and> status w = Match"
  using assms
proof (rule performVerification_InrE)
  fix abvRegex raw ns om3 om4
  assume raw: "netContents f = Some raw"
    and om3: "om3 = (fst (declared_check (normalize_text (Some t))
                  (normalize_text (Some (or_empty (brandName f)))) True) = Match
            \<and> fst (declared_check (normalize_text (Some t))
                  (normalize_text (Some (or_empty (productClass f)))) True) = Match
            \<and> fst (abv_check abvRegex t (trim (String_of (or_zero (alcoholContent f))))
                  True) = Match)"
    and net: "net_check (normalize_text (Some t)) raw (normalize_text (Some raw)) om3
                = Inr (ns, om4)"
    and ov: "overall_match rep = snd (warning_check (normalize_text (Some t)) om4)"
    and fs: "map field (discrepancies rep) =
       [''Brand Name'', ''Product Class/Type'', ''Alcohol Content'', ''Net Contents'',
        ''Government Warning'']"
    and ss: "map status (discrepancies rep) =
       [fst (declared_check (normalize_text (Some t))
               (normalize_text (Some (or_empty (brandName f)))) True),
        fst (declared_check (normalize_text (Some t))
               (normalize_text (Some (or_empty (productClass f)))) True),
        fst (abv_check abvRegex t (trim (String_of (or_zero (alcoholContent f)))) True),
        ns,
        fst (warning_check (normalize_text (Some t)) True)]"
  have w: "snd (warning_check nt om) = (om \<and> fst (warning_check nt True) = Match)" for nt om
    by (simp add: warning_check_def status_distinct[symmetric])
  from fs ss obtain b c a n w' where rows: "discrepancies rep = [b, c, a, n, w']"
    and fields: "field b = ''Brand Name''" "field c = ''Product Class/Type''"
      "field a = ''Alcohol Content''" "field n = ''Net Contents''"
      "field w' = ''Government Warning''"
    and stats: "status b = fst (declared_check (normalize_text (Some t))
               (normalize_text (Some (or_empty (brandName f)))) True)"
      "status c = fst (declared_check (normalize_text (Some t))
               (normalize_text (Some (or_empty (productClass f)))) True)"
      "status a = fst (abv_check abvRegex t (trim (String_of (or_zero (alcoholContent f)))) True)"
      "status n = ns"
      "status w' = fst (warning_check (normalize_text (Some t)) True)"
    by (rule rows_of_report)
  have om4: "om4 = (om3 \<and> (ns = Match \<or> normalize_text (Some raw) = []))"
    by (rule net_check_overall[OF net])
  have verdict: "overall_match rep \<longleftrightarrow>
          status b = Match \<and> status c = Match \<and> status a = Match \<and>
          (status n = Match \<or> normalize_text (Some raw) = []) \<and> status w' = Match"
    unfolding ov w om4 om3 stats by blast
  have netrow: "\<exists>om. net_check (normalize_text (Some t)) raw (normalize_text (Some raw)) om =
            Inr (status n, om \<and> (status n = Match \<or> normalize_text (Some raw) = []))"
    using net om4 stats(4) by blast
  show thesis
    by (rule that[OF raw rows fields _ _ _ _ netrow verdict])
       (simp_all add: stats declared_check_fst abv_check_fst warning_check_fst)
qed

section \<open>The rows of the report\<close>

text \<open>
  Claim C9. Whenever a report is returned, its rows are the five checks in the order
  brand name, product class, alcohol content, net contents, government warning.
\<close>

theorem five_rows_in_fixed_order:
  assumes "performVerification t f = Inr rep"
  shows "map field (discrepancies rep) =
       [''Brand Name'', ''Product Class/Type'', ''Alcohol Content'', ''Net Contents'',
        ''Government Warning'']"
  using assms by (rule performVerification_InrE)

theorem five_rows_in_fixed_order_witness:
  "performVerification label_text form_no_unit = Inr report_no_unit \<and>
   map field (discrepancies report_no_unit) =
       [''Brand Name'', ''Product Class/Type'', ''Alcohol Content'', ''Net Contents'',
        ''Government Warning'']"
  using five_rows_in_fixed_order[OF eval_no_unit] eval_no_unit by simp

text \<open>
  Claim C10. The status of the government warning row depends on the extracted text
  only: two reports on the same text have the same status there, whatever was declared,
  and it is Match exactly when the normalized text contains "government warning".
\<close>

theorem warning_status_from_text_only:
  assumes "performVerification t f1 = Inr r1" and "performVerification t f2 = Inr r2"
  shows "status_of r1 ''Government Warning'' = status_of r2 ''Government Warning'' \<and>
         (status_of r1 ''Government Warning'' = Some Match \<longleftrightarrow>
            (\<exists>p q. normalize_text (Some t) = p @ ''government warning'' @ q))"
proof -
  let ?w = "if includes_str (normalize_text (Some t)) ''government warning''
            then Match else NotFoundOrMismatch"
  have 1: "status_of r1 ''Government Warning'' = Some ?w"
    using assms(1) by (elim report_rows) (simp add: status_of_def)
  have 2: "status_of r2 ''Government Warning'' = Some ?w"
    using assms(2) by (elim report_rows) (simp add: status_of_def)
  show ?thesis
    unfolding 1 2 by (simp add: status_distinct[symmetric] includes_str_iff)
qed

theorem warning_status_from_text_only_witness:
  "performVerification label_text form_blank_net = Inr report_blank_net \<and>
   performVerification label_text form_net_only = Inr report_net_only \<and>
   status_of report_blank_net ''Government Warning''
     = status_of report_net_only ''Government Warning'' \<and>
   (status_of report_blank_net ''Government Warning'' = Some Match \<longleftrightarrow>
      (\<exists>p q. normalize_text (Some label_text) = p @ ''government warning'' @ q))"
  using warning_status_from_text_only[OF eval_blank_net eval_net_only]
    eval_blank_net eval_net_only
  by blast

section \<open>The verdict\<close>

text \<open>
  Claim C3, as stated: the verdict is true exactly when every row has the status Match.
  It fails when nothing is declared for the net contents: that row is
  Not Found/Mismatch and the verdict is true.
\<close>

theorem verdict_true_with_unmatched_row:
  "performVerification label_text form_blank_net = Inr report_blank_net \<and>
   overall_match report_blank_net \<and> \<not> every_row_matches report_blank_net"
  using eval_blank_net
  by (simp add: report_blank_net_def every_row_matches_def Match_def)

text \<open>
  Claim C3, amended: the verdict is true exactly when every row has the status Match,
  the net contents row left aside when the declared net contents normalize to the empty
  string.
\<close>

theorem verdict_iff_rows_match_but_blank_net:
  assumes "performVerification t f = Inr rep"
  shows "overall_match rep \<longleftrightarrow>
           (\<forall>d \<in> set (discrepancies rep).
              status d = Match \<or>
              (field d = ''Net Contents'' \<and>
               normalize_text (Some (or_empty (netContents f))) = []))"
  using assms
  by (elim report_rows) (simp add: or_empty_Some)

theorem verdict_iff_rows_match_but_blank_net_witness:
  "performVerification label_text form_blank_net = Inr report_blank_net \<and>
   (overall_match report_blank_net \<longleftrightarrow>
      (\<forall>d \<in> set (discrepancies report_blank_net).
         status d = Match \<or>
         (field d = ''Net Contents'' \<and>
          normalize_text (Some (or_empty (netContents form_blank_net))) = [])))"
  using verdict_iff_rows_match_but_blank_net[OF eval_blank_net] eval_blank_net by simp

text \<open>
  Claim C4. The verdict is true exactly when every mandatory row has the status Match.
  Brand name, product class, alcohol content and government warning are always
  mandatory; net contents are mandatory exactly when the declared value normalizes to a
  non-empty string, and a row that is not mandatory does not make the verdict false.
\<close>

theorem verdict_iff_mandatory_rows_match:
  assumes "performVerification t f = Inr rep"
  shows "overall_match rep \<longleftrightarrow>
           status_of rep ''Brand Name'' = Some Match \<and>
           status_of rep ''Product Class/Type'' = Some Match \<and>
           status_of rep ''Alcohol Content'' = Some Match \<and>
           status_of rep ''Government Warning'' = Some Match \<and>
           (length (normalize_text (Some (or_empty (netContents f)))) > 0 \<longrightarrow>
              status_of rep ''Net Contents'' = Some Match)"
  using assms
  by (elim report_rows) (auto simp: status_of_def or_empty_Some)

theorem verdict_iff_mandatory_rows_match_witness:
  "performVerification label_text form_blank_net = Inr report_blank_net \<and>
   (overall_match report_blank_net \<longleftrightarrow>
      status_of report_blank_net ''Brand Name'' = Some Match \<and>
      status_of report_blank_net ''Product Class/Type'' = Some Match \<and>
      status_of report_blank_net ''Alcohol Content'' = Some Match \<and>
      status_of report_blank_net ''Government Warning'' = Some Match \<and>
      (length (normalize_text (Some (or_empty (netContents form_blank_net)))) > 0 \<longrightarrow>
         status_of report_blank_net ''Net Contents'' = Some Match))"
  using verdict_iff_mandatory_rows_match[OF eval_blank_net] eval_blank_net by simp

section \<open>Alcohol content\<close>

lemma alcoholContent_zero: "trim (String_of 0) = ''0''"
  by code_simp

text \<open>
  Claim C6. When the declared alcohol content is the number 0 or is not set, the alcohol
  content row is Not Found/Mismatch for every extracted text, and the verdict is false.
\<close>

theorem zero_alcohol_content_never_matches:
  assumes "performVerification t f = Inr rep"
    and "alcoholContent f = Some 0 \<or> alcoholContent f = None"
  shows "status_of rep ''Alcohol Content'' = Some NotFoundOrMismatch \<and> \<not> overall_match rep"
proof -
  from assms(2) have "trim (String_of (or_zero (alcoholContent f))) = ''0''"
    by (auto simp: or_zero_def alcoholContent_zero)
  with assms(1) show ?thesis
    by (elim report_rows) (simp add: status_of_def status_distinct[symmetric])
qed

theorem zero_alcohol_content_never_matches_witness:
  "performVerification label_text form_net_only = Inr report_net_only \<and>
   (alcoholContent form_net_only = Some 0 \<or> alcoholContent form_net_only = None) \<and>
   status_of report_net_only ''Alcohol Content'' = Some NotFoundOrMismatch \<and>
   \<not> overall_match report_net_only"
proof -
  have h: "alcoholContent form_net_only = Some 0 \<or> alcoholContent form_net_only = None"
    by (simp add: form_net_only_def)
  show ?thesis
    using zero_alcohol_content_never_matches[OF eval_net_only h] eval_net_only h by simp
qed

section \<open>Brand name and product class\<close>

text \<open>
  Claim C8. For the brand name and for the product class: when the declared value
  normalizes to the empty string the status is Not Found/Mismatch; otherwise the status
  is Match exactly when the normalized text contains the normalized declared value as a
  contiguous substring; and a status other than Match makes the verdict false.
\<close>

theorem declared_text_rows:
  assumes "performVerification t f = Inr rep"
  shows "(normalize_text (Some (or_empty (brandName f))) = [] \<longrightarrow>
            status_of rep ''Brand Name'' = Some NotFoundOrMismatch) \<and>
         (normalize_text (Some (or_empty (brandName f))) \<noteq> [] \<longrightarrow>
            (status_of rep ''Brand Name'' = Some Match \<longleftrightarrow>
               (\<exists>p q. normalize_text (Some t) =
                        p @ normalize_text (Some (or_empty (brandName f))) @ q))) \<and>
         (status_of rep ''Brand Name'' \<noteq> Some Match \<longrightarrow>
            status_of rep ''Brand Name'' = Some NotFoundOrMismatch \<and> \<not> overall_match rep) \<and>
         (normalize_text (Some (or_empty (productClass f))) = [] \<longrightarrow>
            status_of rep ''Product Class/Type'' = Some NotFoundOrMismatch) \<and>
         (normalize_text (Some (or_empty (productClass f))) \<noteq> [] \<longrightarrow>
            (status_of rep ''Product Class/Type'' = Some Match \<longleftrightarrow>
               (\<exists>p q. normalize_text (Some t) =
                        p @ normalize_text (Some (or_empty (productClass f))) @ q))) \<and>
         (status_of rep ''Product Class/Type'' \<noteq> Some Match \<longrightarrow>
            status_of rep ''Product Class/Type'' = Some NotFoundOrMismatch \<and>
            \<not> overall_match rep)"
  using assms
  by (elim report_rows)
     (simp add: status_of_def status_distinct[symmetric] includes_str_iff[symmetric])

theorem declared_text_rows_witness:
  "performVerification label_text form_blank_net = Inr report_blank_net \<and>
   normalize_text (Some (or_empty (brandName form_blank_net))) \<noteq> [] \<and>
   (status_of report_blank_net ''Brand Name'' = Some Match \<longleftrightarrow>
      (\<exists>p q. normalize_text (Some label_text) =
               p @ normalize_text (Some (or_empty (brandName form_blank_net))) @ q)) \<and>
   normalize_text (Some (or_empty (productClass form_blank_net))) \<noteq> [] \<and>
   (status_of report_blank_net ''Product Class/Type'' = Some Match \<longleftrightarrow>
      (\<exists>p q. normalize_text (Some label_text) =
               p @ normalize_text (Some (or_empty (productClass form_blank_net))) @ q)) \<and>
   performVerification label_text form_net_only = Inr report_net_only \<and>
   normalize_text (Some (or_empty (brandName form_net_only))) = [] \<and>
   status_of report_net_only ''Brand Name'' \<noteq> Some Match \<and>
   status_of report_net_only ''Brand Name'' = Some NotFoundOrMismatch \<and>
   normalize_text (Some (or_empty (productClass form_net_only))) = [] \<and>
   status_of report_net_only ''Product Class/Type'' \<noteq> Some Match \<and>
   status_of report_net_only ''Product Class/Type'' = Some NotFoundOrMismatch \<and>
   \<not> overall_match report_net_only"
proof -
  have declared: "normalize_text (Some (or_empty (brandName form_blank_net))) \<noteq> []"
    "normalize_text (Some (or_empty (productClass form_blank_net))) \<noteq> []"
    by code_simp+
  have blank: "normalize_text (Some (or_empty (brandName form_net_only))) = []"
    "normalize_text (Some (or_empty (productClass form_net_only))) = []"
    by code_simp+
  have other: "Some NotFoundOrMismatch \<noteq> Some Match"
    by (simp add: status_distinct[symmetric])
  show ?thesis
    using declared_text_rows[OF eval_blank_net] declared_text_rows[OF eval_net_only]
      eval_blank_net eval_net_only declared blank other
    by metis
qed

section \<open>Net contents, with a unit\<close>

text \<open>
  Claim C1 says that the net contents row is Match only when the declared volume and
  the unit stand together in the text. The alternation in the assembled pattern is not
  grouped, so the alternative \<^verbatim>\<open>ml\<close> matches on its own: with "750 mL" declared and a
  label that reads "500 ml" the row is Match, though the text does not contain 750.
\<close>

theorem net_contents_match_without_the_volume:
  "performVerification other_volume_text form_net_only = Inr report_other_volume \<and>
   netContents form_net_only = Some ''750 mL'' \<and>
   status_of report_other_volume ''Net Contents'' = Some Match \<and>
   \<not> includes_str (normalize_text (Some other_volume_text)) ''750''"
  by code_simp

section \<open>Run-time failures\<close>

text \<open>
  Claim C2 says that the engine returns a report for every input. When the form has no
  net contents property the engine raises a TypeError.
\<close>

theorem absent_net_contents_raises:
  "performVerification label_text form_absent_net = Inl TypeError"
  by code_simp

section \<open>normalize is idempotent\<close>

lemma code_char_of: "n < 256 \<Longrightarrow> code (char_of n) = n"
  by (simp add: code_def)

lemma lower_char_idem: "lower_char (lower_char c) = lower_char c"
  by (auto simp: lower_char_def is_upper_def code_char_of)

lemma space_not_punctuation: "CHR '' '' \<notin> set punctuation"
  by (simp add: punctuation_def)

lemma lower_char_space: "lower_char CHR '' '' = CHR '' ''"
  by (simp add: lower_char_def is_upper_def code_def)

lemma set_collapse_spaces: "set (collapse_spaces s) \<subseteq> insert CHR '' '' (set s)"
proof (induction s rule: collapse_spaces.induct)
  case 1
  then show ?case by simp
next
  case (2 c cs)
  have "set (dropWhile is_space cs) \<subseteq> set cs"
    by (auto dest: set_dropWhileD)
  with 2 show ?case by auto
qed

lemma set_trim: "set (trim s) \<subseteq> set s"
  by (auto simp: trim_def dest!: set_dropWhileD)

lemma single_spaced_Cons:
  "single_spaced (c # s) \<longleftrightarrow>
     single_spaced s \<and> (s = [] \<or> \<not> (is_space c \<and> is_space (hd s)))"
  by (cases s) auto

lemma single_spaced_append:
  "single_spaced (a @ b) \<Longrightarrow> single_spaced a \<and> single_spaced b"
proof (induction a)
  case Nil
  then show ?case by simp
next
  case (Cons x a)
  then show ?case
    by (cases a) (auto simp: single_spaced_Cons)
qed

lemma collapse_spaces_hd:
  "s \<noteq> [] \<Longrightarrow> \<not> is_space (hd s) \<Longrightarrow> collapse_spaces s \<noteq> [] \<and> hd (collapse_spaces s) = hd s"
  by (cases s) auto

lemma single_spaced_collapse: "single_spaced (collapse_spaces s)"
proof (induction s rule: collapse_spaces.induct)
  case 1
  then show ?case by simp
next
  case (2 c cs)
  show ?case
  proof (cases "is_space c \<and> cs \<noteq> [] \<and> is_space (hd cs)")
    case True
    let ?r = "dropWhile is_space cs"
    have "collapse_spaces ?r = [] \<or> \<not> is_space (hd (collapse_spaces ?r))"
    proof (cases "?r = []")
      case True
      then show ?thesis by (metis collapse_spaces.simps(1))
    next
      case False
      then have "\<not> is_space (hd ?r)" by (rule hd_dropWhile)
      with False show ?thesis using collapse_spaces_hd[of ?r] by metis
    qed
    with True 2 show ?thesis by (auto simp: single_spaced_Cons)
  next
    case False
    have "collapse_spaces cs = [] \<or> \<not> (is_space c \<and> is_space (hd (collapse_spaces cs)))"
    proof (cases "cs = [] \<or> \<not> is_space c")
      case True
      then show ?thesis by auto
    next
      case False
      with \<open>\<not> (is_space c \<and> cs \<noteq> [] \<and> is_space (hd cs))\<close>
      have "cs \<noteq> []" "\<not> is_space (hd cs)" by auto
      then show ?thesis by (simp add: collapse_spaces_hd)
    qed
    with False 2 show ?thesis by (auto simp: single_spaced_Cons)
  qed
qed

lemma collapse_spaces_single_spaced: "single_spaced s \<Longrightarrow> collapse_spaces s = s"
  by (induction s rule: single_spaced.induct) auto

lemma rev_dropWhile_split: "y = rev (dropWhile P (rev y)) @ rev (takeWhile P (rev y))"
proof -
  have "rev (rev y) = rev (takeWhile P (rev y) @ dropWhile P (rev y))"
    by (simp only: takeWhile_dropWhile_id)
  then show ?thesis by (simp only: rev_rev_ident rev_append)
qed

lemma trim_infix: "\<exists>a b. s = a @ trim s @ b"
proof -
  let ?y = "dropWhile is_space s"
  have "s = takeWhile is_space s @ ?y" by simp
  moreover have "?y = trim s @ rev (takeWhile is_space (rev ?y))"
    unfolding trim_def by (rule rev_dropWhile_split)
  ultimately have "s = takeWhile is_space s @ trim s @ rev (takeWhile is_space (rev ?y))"
    by simp
  then show ?thesis by blast
qed

lemma single_spaced_trim: "single_spaced s \<Longrightarrow> single_spaced (trim s)"
proof -
  assume s: "single_spaced s"
  obtain a b where "s = a @ trim s @ b" using trim_infix by blast
  with s have "single_spaced (a @ (trim s @ b))" by simp
  then have "single_spaced (trim s @ b)" by (blast dest: single_spaced_append)
  then show ?thesis by (blast dest: single_spaced_append)
qed

lemma trim_ends:
  "trim s = [] \<or> (\<not> is_space (hd (trim s)) \<and> \<not> is_space (last (trim s)))"
proof (cases "trim s = []")
  case True
  then show ?thesis by simp
next
  case False
  let ?y = "dropWhile is_space s"
  let ?d = "dropWhile is_space (rev ?y)"
  have t: "trim s = rev ?d" by (simp add: trim_def)
  with False have d: "?d \<noteq> []" by simp
  then have "\<not> is_space (hd ?d)" by (rule hd_dropWhile)
  with d t have last: "\<not> is_space (last (trim s))" by (simp add: last_rev)
  from d have y: "?y \<noteq> []" by (metis dropWhile.simps(1) rev.simps(1))
  then have hy: "\<not> is_space (hd ?y)" by (rule hd_dropWhile)
  have "?y = trim s @ rev (takeWhile is_space (rev ?y))"
    unfolding trim_def by (rule rev_dropWhile_split)
  with False have "hd ?y = hd (trim s)" by (metis hd_append2)
  with hy last show ?thesis by simp
qed

lemma trim_fixed:
  assumes "z = [] \<or> (\<not> is_space (hd z) \<and> \<not> is_space (last z))"
  shows "trim z = z"
proof (cases "z = []")
  case True
  then show ?thesis by (simp add: trim_def)
next
  case False
  with assms have h: "\<not> is_space (hd z)" and l: "\<not> is_space (last z)" by auto
  from False h have 1: "dropWhile is_space z = z" by (cases z) auto
  from False l have "\<not> is_space (hd (rev z))" by (simp add: hd_rev)
  with False have 2: "dropWhile is_space (rev z) = rev z" by (cases "rev z") auto
  show ?thesis by (simp add: trim_def 1 2)
qed

lemma trim_idem: "trim (trim s) = trim s"
  by (rule trim_fixed) (rule trim_ends)

text \<open>What every character of a normalized text satisfies.\<close>

lemma normalized_chars:
  assumes "c \<in> set (trim (collapse_spaces (strip_punctuation (toLowerCase t))))"
  shows "lower_char c = c \<and> c \<notin> set punctuation"
proof -
  from assms have "c \<in> set (collapse_spaces (strip_punctuation (toLowerCase t)))"
    using set_trim by blast
  then have "c = CHR '' '' \<or> c \<in> set (strip_punctuation (toLowerCase t))"
    using set_collapse_spaces by blast
  then show ?thesis
  proof
    assume "c = CHR '' ''"
    then show ?thesis by (simp add: lower_char_space space_not_punctuation)
  next
    assume "c \<in> set (strip_punctuation (toLowerCase t))"
    then show ?thesis
      by (auto simp: strip_punctuation_def toLowerCase_def lower_char_idem)
  qed
qed

text \<open>
  Claim C7. normalize is idempotent, and the normalization of an absent or empty text
  is the empty string.
\<close>

theorem normalize_idempotent:
  "normalize_text (Some (normalize_text x)) = normalize_text x \<and>
   normalize_text None = [] \<and> normalize_text (Some []) = []"
proof -
  have fixed: "normalize_text (Some n) = n"
    if n: "n = trim (collapse_spaces (strip_punctuation (toLowerCase t)))" for n t
  proof -
    have chars: "\<And>c. c \<in> set n \<Longrightarrow> lower_char c = c \<and> c \<notin> set punctuation"
      unfolding n by (rule normalized_chars)
    have 1: "toLowerCase n = n"
      unfolding toLowerCase_def using chars by (simp add: map_idI)
    have 2: "strip_punctuation n = n"
      unfolding strip_punctuation_def using chars by simp
    have "single_spaced n"
      unfolding n by (rule single_spaced_trim) (rule single_spaced_collapse)
    then have 3: "collapse_spaces n = n" by (rule collapse_spaces_single_spaced)
    have 4: "trim n = n" unfolding n by (rule trim_idem)
    show ?thesis by (simp add: normalize_text_def 1 2 3 4)
  qed
  have "normalize_text (Some (normalize_text x)) = normalize_text x"
  proof (cases x)
    case None
    then show ?thesis by (simp add: normalize_text_def)
  next
    case (Some t)
    show ?thesis
    proof (cases "t = []")
      case True
      with Some show ?thesis by (simp add: normalize_text_def)
    next
      case False
      with Some have "normalize_text x = trim (collapse_spaces (strip_punctuation (toLowerCase t)))"
        by (simp add: normalize_text_def)
      then show ?thesis using fixed by simp
    qed
  qed
  then show ?thesis by (simp add: normalize_text_def)
qed

section \<open>Net contents, without a unit\<close>

text \<open>The first match of a greedy loop over one character class takes the whole run.\<close>

lemma rmatch_Digit: "rmatch Digit ic = step is_digit"
  by (rule ext) simp

lemma repeat_nonempty: "repeat n f st \<noteq> []"
  by (cases n) simp_all

lemma step_Nil: "step P (p, [], c) = []"
  by (simp add: step_def rest_of_def)

lemma step_Cons:
  "step P (p, x # xs, c) = (if P x then [(Some x, xs, c)] else [])"
  by (simp add: step_def rest_of_def caps_of_def)

lemma repeat_step_hd:
  "length s \<le> n \<Longrightarrow> \<exists>p'. hd (repeat n (step P) (p, s, c)) = (p', dropWhile P s, c)"
proof (induction n arbitrary: p s)
  case 0
  then show ?case by simp
next
  case (Suc n)
  show ?case
  proof (cases s)
    case Nil
    then show ?thesis by (simp add: step_Nil)
  next
    case (Cons x xs)
    show ?thesis
    proof (cases "P x")
      case True
      from Suc.prems Cons have "length xs \<le> n" by simp
      from Suc.IH[OF this] obtain p' where
        "hd (repeat n (step P) (Some x, xs, c)) = (p', dropWhile P xs, c)" by blast
      with True Cons show ?thesis
        by (simp add: step_Cons progress_def rest_of_def repeat_nonempty)
    next
      case False
      with Cons show ?thesis by (simp add: step_Cons)
    qed
  qed
qed

lemma repeat_step_stuck:
  "s = [] \<or> \<not> P (hd s) \<Longrightarrow> repeat n (step P) (p, s, c) = [(p, s, c)]"
  by (cases n; cases s) (simp_all add: step_Nil step_Cons)


lemma take_before_dropWhile:
  "take (Suc (length s) - length (dropWhile P s)) (d # s) = d # takeWhile P s"
proof -
  have "length (takeWhile P s) + length (dropWhile P s) = length s"
    by (metis length_append takeWhile_dropWhile_id)
  then have "Suc (length s) - length (dropWhile P s) = Suc (length (takeWhile P s))"
    by simp
  then show ?thesis by (simp add: takeWhile_eq_take[symmetric])
qed

lemma optional_dot_absent:
  "r = [] \<or> hd r \<noteq> CHR ''.'' \<Longrightarrow> rmatch (Opt (Lit CHR ''.'')) False (p, r, c) = [(p, r, c)]"
  by (cases r) (auto simp: step_Nil step_Cons canonicalize_def)

lemma group_of_case:
  "map_option (\<lambda>m. group m 1) (case xs of [] \<Rightarrow> None | r # rs \<Rightarrow> Some [(1, g (r # rs))]) =
     (case xs of [] \<Rightarrow> None | r # rs \<Rightarrow> Some (g (r # rs)))"
  by (cases xs) (simp_all add: group_def)

lemma volumeOnly_at_digit:
  assumes "is_digit d" and "CHR ''.'' \<notin> set s"
  shows "\<exists>p' more. rmatch volumeOnly_re False (p, d # s, []) =
           (p', dropWhile is_digit s, [(1, d # takeWhile is_digit s)]) # more"
proof -
  let ?r = "dropWhile is_digit s"
  let ?L = "repeat (length s) (step is_digit) (Some d, s, [])"
  obtain p' where hd: "hd ?L = (p', ?r, [])"
    using repeat_step_hd[of s "length s" is_digit "Some d" "[]"] by auto
  then obtain more where L: "?L = (p', ?r, []) # more"
    using repeat_nonempty[of "length s" "step is_digit" "(Some d, s, [])"]
    by (cases ?L) auto
  have "set ?r \<subseteq> set s" by (auto dest: set_dropWhileD)
  with assms(2) have nodot: "?r = [] \<or> hd ?r \<noteq> CHR ''.''"
    by (cases ?r) auto
  have nodigit: "?r = [] \<or> \<not> is_digit (hd ?r)"
    using hd_dropWhile[of is_digit s] by blast
  have opt: "rmatch (Opt (Lit CHR ''.'')) False (p', ?r, []) = [(p', ?r, [])]"
    using nodot by (rule optional_dot_absent)
  have star: "rmatch (Star Digit) False (p', ?r, []) = [(p', ?r, [])]"
    using nodigit by (simp only: rmatch.simps rmatch_Digit repeat_step_stuck)
  have "rmatch (Seq (Opt (Lit CHR ''.'')) (Star Digit)) False (p', ?r, []) = [(p', ?r, [])]"
    by (simp only: rmatch.simps(8) opt star list.map concat.simps append_Nil2)
  then have tail: "rmatch (Seq (Plus Digit) (Seq (Opt (Lit CHR ''.'')) (Star Digit))) False
                 (p, d # s, []) =
               (p', ?r, []) # concat (map (rmatch (Seq (Opt (Lit CHR ''.'')) (Star Digit)) False) more)"
    using assms(1) L by (simp add: rmatch_Digit step_Cons rest_of_def)
  show ?thesis
    unfolding volumeOnly_re_def rmatch.simps(14) tail
    by (simp add: capture_def prev_of_def rest_of_def caps_of_def take_before_dropWhile)
qed

lemma volumeOnly_not_at_digit:
  assumes "s = [] \<or> \<not> is_digit (hd s)"
  shows "rmatch volumeOnly_re False (p, s, []) = []"
  using assms by (cases s) (auto simp: volumeOnly_re_def step_Nil step_Cons)

lemma exec_volumeOnly:
  "CHR ''.'' \<notin> set s \<Longrightarrow>
     map_option caps_of (exec_from volumeOnly_re False p s) =
       (case dropWhile (\<lambda>c. \<not> is_digit c) s of
          [] \<Rightarrow> None
        | r \<Rightarrow> Some [(1, takeWhile is_digit r)])"
proof (induction s arbitrary: p)
  case Nil
  then show ?case by (simp add: volumeOnly_not_at_digit)
next
  case (Cons x xs)
  show ?case
  proof (cases "is_digit x")
    case True
    from Cons.prems have "CHR ''.'' \<notin> set xs" by simp
    from volumeOnly_at_digit[OF True this] obtain p' more where
      "rmatch volumeOnly_re False (p, x # xs, []) =
         (p', dropWhile is_digit xs, [(1, x # takeWhile is_digit xs)]) # more"
      by blast
    with True show ?thesis by (simp add: caps_of_def)
  next
    case False
    then have "rmatch volumeOnly_re False (p, x # xs, []) = []"
      by (simp add: volumeOnly_not_at_digit)
    with False Cons show ?thesis by simp
  qed
qed

lemma volumeOnly_is_first_numeric_substring:
  assumes "CHR ''.'' \<notin> set s"
  shows "map_option (\<lambda>m. group m 1) (match s volumeOnly_re False) = first_numeric_substring s"
proof -
  have "match s volumeOnly_re False =
          (case dropWhile (\<lambda>c. \<not> is_digit c) s of
             [] \<Rightarrow> None
           | r \<Rightarrow> Some [(1, takeWhile is_digit r)])"
    unfolding match_def by (rule exec_volumeOnly[OF assms])
  then show ?thesis
    unfolding first_numeric_substring_def by (simp only: group_of_case)
qed

lemma normalized_no_dot: "CHR ''.'' \<notin> set (normalize_text x)"
proof (cases x)
  case None
  then show ?thesis by (simp add: normalize_text_def)
next
  case (Some t)
  show ?thesis
  proof (cases "t = []")
    case True
    with Some show ?thesis by (simp add: normalize_text_def)
  next
    case False
    have "CHR ''.'' \<in> set punctuation" by (simp add: punctuation_def)
    then have "CHR ''.'' \<notin> set (trim (collapse_spaces (strip_punctuation (toLowerCase t))))"
      using normalized_chars by blast
    with Some False show ?thesis by (simp add: normalize_text_def)
  qed
qed

text \<open>The value that block 4 computes when the structured parse fails on a declared value.\<close>

lemma net_check_fallback:
  assumes "match raw netContents_re True = None" and "normalize_text (Some raw) \<noteq> []"
  shows "net_check nt raw (normalize_text (Some raw)) om =
           Inr (if \<exists>v. first_numeric_substring (normalize_text (Some raw)) = Some v \<and>
                        includes_str nt v
                then MismatchUnitMissing else NotFoundOrMismatch, False)"
proof -
  have "map_option (\<lambda>m. group m 1) (match (normalize_text (Some raw)) volumeOnly_re False)
          = first_numeric_substring (normalize_text (Some raw))"
    by (rule volumeOnly_is_first_numeric_substring) (rule normalized_no_dot)
  then show ?thesis
    using assms
    by (cases "match (normalize_text (Some raw)) volumeOnly_re False")
       (auto simp: net_check_def Let_def)
qed

text \<open>
  Claim C5. When the structured parse of the declared net contents fails and the check
  is mandatory, the first numeric substring of the normalized declared value is looked
  up: the status is Mismatch (Unit Missing) when it occurs in the normalized text as a
  substring and Not Found/Mismatch otherwise, and the verdict is false in both cases.
\<close>
theorem unit_missing_fallback:
  assumes "performVerification t f = Inr rep"
    and "netContents f = Some raw"
    and "match raw netContents_re True = None"
    and "normalize_text (Some raw) \<noteq> []"
  shows "status_of rep ''Net Contents'' =
           Some (if \<exists>v. first_numeric_substring (normalize_text (Some raw)) = Some v \<and>
                         (\<exists>p q. normalize_text (Some t) = p @ v @ q)
                 then MismatchUnitMissing else NotFoundOrMismatch) \<and>
         \<not> overall_match rep"
  using assms(1)
proof (rule report_rows)
  fix raw' b c a n w
  assume raw': "netContents f = Some raw'"
    and rows: "discrepancies rep = [b, c, a, n, w]"
    and fields: "field b = ''Brand Name''" "field c = ''Product Class/Type''"
      "field a = ''Alcohol Content''" "field n = ''Net Contents''"
    and net: "\<exists>om. net_check (normalize_text (Some t)) raw' (normalize_text (Some raw')) om =
            Inr (status n, om \<and> (status n = Match \<or> normalize_text (Some raw') = []))"
    and verdict: "overall_match rep \<longleftrightarrow>
       status b = Match \<and> status c = Match \<and> status a = Match \<and>
       (status n = Match \<or> normalize_text (Some raw') = []) \<and> status w = Match"
  from raw' assms(2) have eq: "raw' = raw" by simp
  from net obtain om where
    "net_check (normalize_text (Some t)) raw (normalize_text (Some raw)) om =
       Inr (status n, om \<and> (status n = Match \<or> normalize_text (Some raw) = []))"
    unfolding eq by blast
  then have n: "status n =
      (if \<exists>v. first_numeric_substring (normalize_text (Some raw)) = Some v \<and>
               includes_str (normalize_text (Some t)) v
       then MismatchUnitMissing else NotFoundOrMismatch)"
    unfolding net_check_fallback[OF assms(3,4)] by simp
  then have "status n \<noteq> Match"
    by (simp add: status_distinct[symmetric])
  with verdict assms(4) have "\<not> overall_match rep" by (simp add: eq)
  moreover have "status_of rep ''Net Contents'' = Some (status n)"
    by (simp add: status_of_def rows fields)
  ultimately show ?thesis
    unfolding n by (simp only: includes_str_iff simp_thms)
qed

theorem unit_missing_fallback_witness:
  "performVerification label_text form_no_unit = Inr report_no_unit \<and>
   netContents form_no_unit = Some ''750'' \<and>
   match ''750'' netContents_re True = None \<and>
   normalize_text (Some ''750'') \<noteq> [] \<and>
   first_numeric_substring (normalize_text (Some ''750'')) = Some ''750'' \<and>
   status_of report_no_unit ''Net Contents'' =
     Some (if \<exists>v. first_numeric_substring (normalize_text (Some ''750'')) = Some v \<and>
                   (\<exists>p q. normalize_text (Some label_text) = p @ v @ q)
           then MismatchUnitMissing else NotFoundOrMismatch) \<and>
   status_of report_no_unit ''Net Contents'' = Some MismatchUnitMissing \<and>
   \<not> overall_match report_no_unit"
proof -
  have 1: "netContents form_no_unit = Some ''750''" by (simp add: form_no_unit_def)
  have 2: "match ''750'' netContents_re True = None" by code_simp
  have 3: "normalize_text (Some ''750'') \<noteq> []" by code_simp
  have 4: "first_numeric_substring (normalize_text (Some ''750'')) = Some ''750''" by code_simp
  have 5: "status_of report_no_unit ''Net Contents'' = Some MismatchUnitMissing" by code_simp
  show ?thesis
    using unit_missing_fallback[OF eval_no_unit 1 2 3] eval_no_unit 1 2 3 4 5 by simp
qed

section \<open>The assembled patterns always parse\<close>

text \<open>
  The patterns that the engine assembles always parse: the alcohol content is rendered
  with digits and a sign, and the groups of the structured parse hold digits, points
  and letters only.
\<close>

lemma syntax_char_code:
  "syntax_char c \<Longrightarrow> code c \<in> {94, 36, 46, 42, 43, 63, 40, 41, 91, 93, 123, 125, 124, 92}"
  by (auto simp: syntax_char_def code_def)

lemma digit_plain: "is_digit c \<Longrightarrow> \<not> syntax_char c"
  by (auto simp: is_digit_def dest!: syntax_char_code)

lemma letter_plain: "is_letter c \<Longrightarrow> \<not> syntax_char c"
  by (auto simp: is_letter_def is_upper_def is_lower_def dest!: syntax_char_code)

lemma minus_plain: "\<not> syntax_char CHR ''-''"
  by (auto dest!: syntax_char_code simp: code_def)

lemma space_plain: "\<not> syntax_char CHR '' ''"
  by (auto dest!: syntax_char_code simp: code_def)

lemma tokenize_plain_char:
  "\<not> syntax_char c \<Longrightarrow> tokenize (c # r) = map_option ((#) (TAtom (Lit c))) (tokenize r)"
  by (simp add: syntax_char_def)

lemma tokenize_escape:
  "tokenize (CHR 0x5C # e # r) =
     (case escape e of None \<Rightarrow> None | Some a \<Rightarrow> map_option ((#) (TAtom a)) (tokenize r))"
  by simp

lemma tokenize_open:
  "tokenize (CHR ''('' # CHR ''?'' # CHR '':'' # r) = map_option ((#) TOpen) (tokenize r)"
  by simp

lemma tokenize_syntax:
  "tokenize (CHR '')'' # r) = map_option ((#) TClose) (tokenize r)"
  "tokenize (CHR ''|'' # r) = map_option ((#) TBar) (tokenize r)"
  "tokenize (CHR ''*'' # r) = map_option ((#) TStar) (tokenize r)"
  "tokenize (CHR ''?'' # r) = map_option ((#) TQuest) (tokenize r)"
  "tokenize (CHR ''.'' # r) = map_option ((#) (TAtom AnyChar)) (tokenize r)"
  by simp_all

lemma escape_values:
  "escape CHR ''b'' = Some WordB" "escape CHR ''s'' = Some Space"
  "escape CHR ''.'' = Some (Lit CHR ''.'')"
  by (simp_all add: escape_def syntax_char_def)

declare tokenize.simps [simp del]

lemma tokenize_plain:
  "\<forall>c \<in> set s. \<not> syntax_char c \<Longrightarrow>
     tokenize (s @ r) = map_option ((@) (map (\<lambda>c. TAtom (Lit c)) s)) (tokenize r)"
proof (induction s)
  case Nil
  then show ?case by (cases "tokenize r") simp_all
next
  case (Cons a s)
  then show ?case by (cases "tokenize r") (simp_all add: tokenize_plain_char)
qed

lemma parse_atoms:
  "parse_tokens (map (\<lambda>c. TAtom (Lit c)) s @ ts) fr stk =
     parse_tokens ts (fst fr, rev (map Lit s) @ snd fr) stk"
  by (induction s arbitrary: fr) simp_all

declare digits_of.simps [simp del]

lemma digits_of_digits: "\<forall>c \<in> set (digits_of n). is_digit c"
proof (induction n rule: digits_of.induct)
  case (1 n)
  have d: "is_digit (char_of (48 + k))" if "k < 10" for k :: nat
    using that by (simp add: is_digit_def code_char_of)
  show ?case
  proof (cases "n < 10")
    case True
    then have "digits_of n = [char_of (48 + n)]" by (subst digits_of.simps) simp
    with True show ?thesis by (simp add: d)
  next
    case False
    with 1 have "\<forall>c \<in> set (digits_of (n div 10)). is_digit c" by simp
    moreover have "is_digit (char_of (48 + n mod 10))" by (rule d) simp
    moreover from False
    have "digits_of n = digits_of (n div 10) @ [char_of (48 + n mod 10)]"
      by (subst digits_of.simps) simp
    ultimately show ?thesis by simp
  qed
qed

lemma String_of_plain: "\<forall>c \<in> set (trim (String_of n)). \<not> syntax_char c"
proof -
  have "\<forall>c \<in> set (String_of n). \<not> syntax_char c"
    using digits_of_digits by (auto simp: String_of_def minus_plain dest: digit_plain)
  moreover have "set (trim (String_of n)) \<subseteq> set (String_of n)"
    by (auto simp: trim_def dest!: set_dropWhileD)
  ultimately show ?thesis by blast
qed

lemma abvRegex_builds:
  assumes "\<forall>c \<in> set ac. \<not> syntax_char c"
  shows "\<exists>r. RegExp (abv_source ac) = Some r"
proof -
  have plain: "tokenize (ac @ r) = map_option ((@) (map (\<lambda>c. TAtom (Lit c)) ac)) (tokenize r)"
    for r
    using assms by (rule tokenize_plain)
  show ?thesis
    unfolding RegExp_def abv_source_def esc_def
    by (simp add: tokenize_escape tokenize_open tokenize_syntax escape_values plain
          tokenize_plain_char syntax_char_def tokenize.simps(1) parse_atoms quantify_def)
qed

lemma syntax_chars: "syntax_char CHR ''.''" "syntax_char CHR ''|''" "syntax_char CHR 0x5C"
  "syntax_char CHR ''*''"
  by (simp_all add: syntax_char_def)

lemma simple_append:
  "simple_source a \<Longrightarrow> simple_source b \<Longrightarrow> simple_source (a @ b)"
  by (induction a rule: simple_source.induct) (auto intro: simple_source.intros)

lemma simple_parses:
  "simple_source s \<Longrightarrow>
     \<exists>ts. tokenize s = Some ts \<and> (\<forall>fr. \<exists>r. parse_tokens ts fr [] = Some r)"
proof (induction s rule: simple_source.induct)
  case simple_Nil
  show ?case by (simp add: tokenize.simps(1))
next
  case (simple_plain c s)
  then show ?case by (auto simp: tokenize_plain_char)
next
  case (simple_dot s)
  then show ?case by (auto simp: tokenize_syntax)
next
  case (simple_bar s)
  then show ?case by (auto simp: tokenize_syntax)
next
  case (simple_spaces s)
  then show ?case
    by (auto simp: tokenize_escape tokenize_syntax escape_values quantify_def)
next
  case (simple_boundary s)
  then show ?case by (auto simp: tokenize_escape escape_values)
qed

lemma simple_split:
  assumes "simple_source s" and "s = a @ c # b"
    and "\<not> syntax_char c" and "c \<noteq> CHR ''s''" and "c \<noteq> CHR ''b''"
  shows "simple_source a \<and> simple_source b"
  using assms
proof (induction s arbitrary: a rule: simple_source.induct)
  case simple_Nil
  then show ?case by simp
next
  case (simple_plain x s)
  show ?case
  proof (cases a)
    case Nil
    with simple_plain show ?thesis by (auto intro: simple_source.intros)
  next
    case (Cons y a')
    with simple_plain.prems have "s = a' @ c # b" "y = x" by auto
    with simple_plain Cons show ?thesis by (auto intro: simple_source.intros)
  qed
next
  case (simple_dot s)
  show ?case
  proof (cases a)
    case Nil
    with simple_dot.prems show ?thesis by (auto simp: syntax_chars)
  next
    case (Cons y a')
    with simple_dot.prems have "s = a' @ c # b" "y = CHR ''.''" by auto
    with simple_dot Cons show ?thesis by (auto intro: simple_source.intros)
  qed
next
  case (simple_bar s)
  show ?case
  proof (cases a)
    case Nil
    with simple_bar.prems show ?thesis by (auto simp: syntax_chars)
  next
    case (Cons y a')
    with simple_bar.prems have "s = a' @ c # b" "y = CHR ''|''" by auto
    with simple_bar Cons show ?thesis by (auto intro: simple_source.intros)
  qed
next
  case (simple_spaces s)
  from simple_spaces.prems(1,2,3)
  obtain a' where a: "a = CHR 0x5C # CHR ''s'' # CHR ''*'' # a'" and s: "s = a' @ c # b"
    by (cases a; cases "tl a"; cases "tl (tl a)") (auto simp: syntax_chars)
  from simple_spaces.IH[OF s simple_spaces.prems(2,3,4)]
  have "simple_source a'" and b: "simple_source b" by simp_all
  then have "simple_source (CHR 0x5C # CHR ''s'' # CHR ''*'' # a')"
    by (intro simple_source.simple_spaces)
  with a b show ?case by simp
next
  case (simple_boundary s)
  from simple_boundary.prems(1,2,4)
  obtain a' where a: "a = CHR 0x5C # CHR ''b'' # a'" and s: "s = a' @ c # b"
    by (cases a; cases "tl a") (auto simp: syntax_chars)
  from simple_boundary.IH[OF s simple_boundary.prems(2,3,4)]
  have "simple_source a'" and b: "simple_source b" by simp_all
  then have "simple_source (CHR 0x5C # CHR ''b'' # a')"
    by (intro simple_source.simple_boundary)
  with a b show ?case by simp
qed

lemma simple_drop_plain:
  "simple_source (pat @ b) \<Longrightarrow> \<forall>c \<in> set pat. \<not> syntax_char c \<Longrightarrow> simple_source b"
proof (induction pat)
  case Nil
  then show ?case by simp
next
  case (Cons x pat)
  from Cons.prems have "simple_source (x # (pat @ b))" "\<not> syntax_char x" by simp_all
  then have "simple_source (pat @ b)"
    by (cases rule: simple_source.cases) (auto simp: syntax_chars)
  with Cons show ?case by simp
qed

lemma replace_cases:
  "replace s pat rep = s \<or> (\<exists>a b. s = a @ pat @ b \<and> replace s pat rep = a @ rep @ b)"
proof (induction s)
  case Nil
  then show ?case by auto
next
  case (Cons x s)
  show ?case
  proof (cases "prefix pat (x # s)")
    case True
    then obtain q where q: "x # s = pat @ q" by (auto simp: prefix_def)
    then have "drop (length pat) (x # s) = q" by (metis append_eq_conv_conj)
    moreover from True have "replace (x # s) pat rep = rep @ drop (length pat) (x # s)"
      by simp
    ultimately have "replace (x # s) pat rep = [] @ rep @ q" by (simp only: append_Nil)
    moreover from q have "x # s = [] @ pat @ q" by (simp only: append_Nil)
    ultimately show ?thesis by blast
  next
    case False
    from Cons show ?thesis
    proof
      assume "replace s pat rep = s"
      with False show ?thesis by simp
    next
      assume "\<exists>a b. s = a @ pat @ b \<and> replace s pat rep = a @ rep @ b"
      then obtain a b where "s = a @ pat @ b" "replace s pat rep = a @ rep @ b" by blast
      with False have "x # s = (x # a) @ pat @ b \<and> replace (x # s) pat rep = (x # a) @ rep @ b"
        by simp
      then show ?thesis by blast
    qed
  qed
qed

lemma simple_replace:
  assumes "simple_source s" and "simple_source rep"
    and "\<forall>c \<in> set (x # pat). \<not> syntax_char c" and "x \<noteq> CHR ''s''" and "x \<noteq> CHR ''b''"
  shows "simple_source (replace s (x # pat) rep)"
proof -
  from replace_cases[of s "x # pat" rep] show ?thesis
  proof
    assume "replace s (x # pat) rep = s"
    with assms(1) show ?thesis by simp
  next
    assume "\<exists>a b. s = a @ (x # pat) @ b \<and> replace s (x # pat) rep = a @ rep @ b"
    then obtain a b where s: "s = a @ x # (pat @ b)"
      and r: "replace s (x # pat) rep = a @ rep @ b" by auto
    from assms(3) have x: "\<not> syntax_char x" by simp
    from simple_split[OF assms(1) s x assms(4,5)]
    have a: "simple_source a" and "simple_source (pat @ b)" by simp_all
    with assms(3) have "simple_source b" by (auto intro: simple_drop_plain)
    with a assms(2) show ?thesis unfolding r by (auto intro: simple_append)
  qed
qed

lemma simple_plain_text: "\<forall>c \<in> set s. \<not> syntax_char c \<Longrightarrow> simple_source s"
  by (induction s) (auto intro: simple_source.intros)

lemma simple_volume: "\<forall>c \<in> set v. is_digit c \<or> c = CHR ''.'' \<Longrightarrow> simple_source v"
  by (induction v) (auto intro: simple_source.intros dest: digit_plain)

lemma simple_unit_pattern:
  assumes "\<forall>c \<in> set u. \<not> syntax_char c"
  shows "simple_source (unit_pattern u)"
proof -
  have r1: "simple_source (''fl'' @ esc CHR ''s'' @ ''*oz|floz'')"
    unfolding esc_def by (auto intro!: simple_source.intros simp: syntax_char_def)
  have r2: "simple_source (''m'' @ esc CHR ''s'' @ ''*l|ml|milliliter|millilitres'')"
    unfolding esc_def by (auto intro!: simple_source.intros simp: syntax_char_def)
  have "simple_source (replace u ''floz'' (''fl'' @ esc CHR ''s'' @ ''*oz|floz''))"
    by (rule simple_replace[OF simple_plain_text[OF assms] r1]) (auto simp: syntax_char_def)
  then show ?thesis
    unfolding unit_pattern_def
    by (rule simple_replace[OF _ r2]) (auto simp: syntax_char_def)
qed

lemma searchRegex_builds:
  assumes "\<forall>c \<in> set v. is_digit c \<or> c = CHR ''.''" and "\<forall>c \<in> set u. \<not> syntax_char c"
  shows "\<exists>r. RegExp (search_source v (unit_pattern u)) = Some r"
proof -
  let ?b = "[CHR 0x5C, CHR ''b'']"
  let ?s = "[CHR 0x5C, CHR ''s'', CHR ''*'']"
  have "simple_source ?b"
    by (intro simple_source.simple_boundary simple_source.simple_Nil)
  then have "simple_source (unit_pattern u @ ?b)"
    by (rule simple_append[OF simple_unit_pattern[OF assms(2)]])
  then have "simple_source (?s @ unit_pattern u @ ?b)"
    by (simp add: simple_source.simple_spaces)
  then have "simple_source (v @ ?s @ unit_pattern u @ ?b)"
    by (rule simple_append[OF simple_volume[OF assms(1)]])
  then have "simple_source (?b @ v @ ?s @ unit_pattern u @ ?b)"
    by (simp add: simple_source.simple_boundary)
  moreover have "search_source v (unit_pattern u) = ?b @ v @ ?s @ unit_pattern u @ ?b"
    by (simp add: search_source_def esc_def)
  ultimately have "simple_source (search_source v (unit_pattern u))" by simp
  from simple_parses[OF this] show ?thesis
    unfolding RegExp_def by (auto split: option.splits)
qed

lemma consumesD:
  "consumes Q f \<Longrightarrow> st' \<in> set (f st) \<Longrightarrow>
     \<exists>u. rest_of st = u @ rest_of st' \<and> (\<forall>c \<in> set u. Q c) \<and> caps_of st' = caps_of st"
  unfolding consumes_def by blast

lemma consumes_step: "(\<And>c. P c \<Longrightarrow> Q c) \<Longrightarrow> consumes Q (step P)"
  unfolding consumes_def step_def
  by (auto simp: rest_of_def caps_of_def split: list.splits if_splits)

lemma consumes_seq:
  assumes "consumes Q f" and "consumes Q g"
  shows "consumes Q (\<lambda>st. concat (map g (f st)))"
  unfolding consumes_def
proof (intro allI impI)
  fix st st'
  assume "st' \<in> set (concat (map g (f st)))"
  then obtain st1 where 1: "st1 \<in> set (f st)" and 2: "st' \<in> set (g st1)" by auto
  from consumesD[OF assms(1) 1] obtain u where
    u: "rest_of st = u @ rest_of st1" "\<forall>c \<in> set u. Q c" "caps_of st1 = caps_of st" by blast
  from consumesD[OF assms(2) 2] obtain v where
    v: "rest_of st1 = v @ rest_of st'" "\<forall>c \<in> set v. Q c" "caps_of st' = caps_of st1" by blast
  from u v have "rest_of st = (u @ v) @ rest_of st' \<and> (\<forall>c \<in> set (u @ v). Q c) \<and>
                 caps_of st' = caps_of st"
    by auto
  then show "\<exists>u. rest_of st = u @ rest_of st' \<and> (\<forall>c \<in> set u. Q c) \<and> caps_of st' = caps_of st"
    by blast
qed

lemma consumes_opt:
  assumes "consumes Q f"
  shows "consumes Q (\<lambda>st. filter (progress st) (f st) @ [st])"
  unfolding consumes_def
proof (intro allI impI)
  fix st st'
  assume "st' \<in> set (filter (progress st) (f st) @ [st])"
  then have "st' = st \<or> st' \<in> set (f st)" by auto
  then show "\<exists>u. rest_of st = u @ rest_of st' \<and> (\<forall>c \<in> set u. Q c) \<and> caps_of st' = caps_of st"
  proof
    assume "st' = st"
    then have "rest_of st = [] @ rest_of st' \<and> (\<forall>c \<in> set []. Q c) \<and> caps_of st' = caps_of st"
      by simp
    then show ?thesis by blast
  next
    assume "st' \<in> set (f st)"
    from consumesD[OF assms this] show ?thesis .
  qed
qed

lemma consumes_repeat:
  assumes "consumes Q f"
  shows "consumes Q (repeat n f)"
proof (induction n)
  case 0
  have "consumes Q (\<lambda>st. [st])"
    unfolding consumes_def by auto
  moreover have "repeat 0 f = (\<lambda>st. [st])" by (rule ext) simp
  ultimately show ?case by simp
next
  case (Suc n)
  have "consumes Q (\<lambda>st. concat (map (repeat n f) (f st)))"
    by (rule consumes_seq[OF assms Suc])
  then have "consumes Q (\<lambda>st. concat (map (repeat n f) (filter (progress st) (f st))) @ [st])"
    unfolding consumes_def
    apply (intro allI impI)
    subgoal for st st'
      apply (cases "st' = st")
       apply (rule exI[of _ "[]"])
       apply simp
      apply (drule spec[of _ st], drule spec[of _ st'])
      apply auto
      done
    done
  moreover have "repeat (Suc n) f =
      (\<lambda>st. concat (map (repeat n f) (filter (progress st) (f st))) @ [st])"
    by (rule ext) simp
  ultimately show ?case by simp
qed

lemma consumes_star: "consumes Q (rmatch a ic) \<Longrightarrow> consumes Q (rmatch (Star a) ic)"
  unfolding consumes_def[of Q "rmatch (Star a) ic"] rmatch.simps
  using consumes_repeat[of Q "rmatch a ic"] by (blast dest: consumesD)

lemma consumes_plus: 
  assumes "consumes Q (rmatch a ic)"
  shows "consumes Q (rmatch (Plus a) ic)"
proof -
  have "consumes Q (\<lambda>st. concat (map (rmatch (Star a) ic) (rmatch a ic st)))"
    by (rule consumes_seq[OF assms consumes_star[OF assms]])
  moreover have "rmatch (Star a) ic = (\<lambda>st'. repeat (length (rest_of st')) (rmatch a ic) st')"
    by (rule ext) simp
  then have "rmatch (Plus a) ic = (\<lambda>st. concat (map (rmatch (Star a) ic) (rmatch a ic st)))"
    by (intro ext) (simp only: rmatch.simps)
  ultimately show ?thesis by simp
qed

lemma consumes_Seq:
  assumes "consumes Q (rmatch a ic)" and "consumes Q (rmatch b ic)"
  shows "consumes Q (rmatch (Seq a b) ic)"
proof -
  have "rmatch (Seq a b) ic = (\<lambda>st. concat (map (rmatch b ic) (rmatch a ic st)))"
    by (rule ext) simp
  with consumes_seq[OF assms] show ?thesis by simp
qed

lemma consumes_Opt:
  assumes "consumes Q (rmatch a ic)"
  shows "consumes Q (rmatch (Opt a) ic)"
proof -
  have "rmatch (Opt a) ic = (\<lambda>st. filter (progress st) (rmatch a ic st) @ [st])"
    by (rule ext) simp
  with consumes_opt[OF assms] show ?thesis by simp
qed

lemma consumes_Digit: "(\<And>c. is_digit c \<Longrightarrow> Q c) \<Longrightarrow> consumes Q (rmatch Digit ic)"
  unfolding rmatch_Digit by (rule consumes_step)

lemma rmatch_Space: "rmatch Space ic = step is_space"
  by (rule ext) simp

lemma canonicalize_dot: "canonicalize ic c = canonicalize ic CHR ''.'' \<Longrightarrow> c = CHR ''.''"
proof -
  assume a: "canonicalize ic c = canonicalize ic CHR ''.''"
  have dot: "canonicalize ic CHR ''.'' = CHR ''.''"
    by (simp add: canonicalize_def is_lower_def code_def)
  show ?thesis
  proof (rule ccontr)
    assume n: "c \<noteq> CHR ''.''"
    with a dot have c: "ic \<and> (is_lower c \<or> (224 \<le> code c \<and> code c \<le> 254 \<and> code c \<noteq> 247))"
      and e: "char_of (code c - 32) = CHR ''.''"
      by (auto simp: canonicalize_def split: if_splits)
    from e have "code (char_of (code c - 32)) = code CHR ''.''" by simp
    moreover from c have "code c - 32 < 256" by (auto simp: is_lower_def)
    ultimately have "code c - 32 = 46" by (simp add: code_char_of) (simp add: code_def)
    with c show False by (auto simp: is_lower_def)
  qed
qed

lemma consumes_dot:
  "consumes (\<lambda>c. is_digit c \<or> c = CHR ''.'') (rmatch (Lit CHR ''.'') ic)"
proof -
  have "rmatch (Lit CHR ''.'') ic = step (\<lambda>c. canonicalize ic c = canonicalize ic CHR ''.'')"
    by (rule ext) simp
  moreover have "consumes (\<lambda>c. is_digit c \<or> c = CHR ''.'')
                   (step (\<lambda>c. canonicalize ic c = canonicalize ic CHR ''.''))"
    by (rule consumes_step) (simp add: canonicalize_dot)
  ultimately show ?thesis by simp
qed

lemma letters_class:
  assumes "in_class ic [(CHR ''a'', CHR ''z''), (CHR ''A'', CHR ''Z'')] c"
  shows "is_letter c"
proof -
  have r: "in_ranges [(CHR ''a'', CHR ''z''), (CHR ''A'', CHR ''Z'')] x \<longleftrightarrow> is_letter x" for x
    by (auto simp: in_ranges_def is_letter_def is_upper_def is_lower_def code_def)
  have canon: "is_letter (canonicalize True c) \<Longrightarrow> is_letter c"
    by (auto simp: canonicalize_def is_letter_def is_upper_def is_lower_def code_char_of
          split: if_splits)
  have lower: "is_letter (lower_char x) \<Longrightarrow> is_letter x" for x
    by (auto simp: lower_char_def is_letter_def is_upper_def is_lower_def code_char_of
          split: if_splits)
  from assms show ?thesis
    unfolding in_class_def r
    by (auto dest: canon lower split: if_splits)
qed

lemma consumes_letters:
  "consumes is_letter (rmatch (Class [(CHR ''a'', CHR ''z''), (CHR ''A'', CHR ''Z'')]) ic)"
proof -
  have "rmatch (Class [(CHR ''a'', CHR ''z''), (CHR ''A'', CHR ''Z'')]) ic =
          step (in_class ic [(CHR ''a'', CHR ''z''), (CHR ''A'', CHR ''Z'')])"
    by (rule ext) simp
  moreover have "consumes is_letter (step (in_class ic [(CHR ''a'', CHR ''z''), (CHR ''A'', CHR ''Z'')]))"
    by (rule consumes_step) (rule letters_class)
  ultimately show ?thesis by simp
qed

lemma consumes_volume:
  "consumes (\<lambda>c. is_digit c \<or> c = CHR ''.'')
     (rmatch (Seq (Plus Digit) (Seq (Opt (Lit CHR ''.'')) (Star Digit))) ic)"
  by (intro consumes_Seq consumes_plus consumes_Opt consumes_star consumes_Digit consumes_dot)
     simp_all

lemma consumes_spaces: "consumes (\<lambda>c. True) (rmatch (Star Space) ic)"
proof (rule consumes_star)
  have "consumes (\<lambda>c. True) (step is_space)" by (rule consumes_step) simp
  then show "consumes (\<lambda>c. True) (rmatch Space ic)" by (simp only: rmatch_Space)
qed

lemma taken_is_consumed: "rest_of st = u @ rest_of st' \<Longrightarrow>
    take (length (rest_of st) - length (rest_of st')) (rest_of st) = u"
  by simp

lemma exec_from_member:
  "exec_from r ic p s = Some st \<Longrightarrow> \<exists>p' s'. st \<in> set (rmatch r ic (p', s', []))"
proof (induction s arbitrary: p)
  case Nil
  then have "st \<in> set (rmatch r ic (p, [], []))"
    by (cases "rmatch r ic (p, [], [])") auto
  then show ?case by blast
next
  case (Cons c cs)
  show ?case
  proof (cases "rmatch r ic (p, c # cs, [])")
    case Nil
    with Cons show ?thesis by simp
  next
    case (Cons x xs)
    with Cons.prems have "st \<in> set (rmatch r ic (p, c # cs, []))" by simp
    then show ?thesis by blast
  qed
qed

lemma in_Seq:
  "st' \<in> set (rmatch (Seq a b) ic st) \<longleftrightarrow>
     (\<exists>st1 \<in> set (rmatch a ic st). st' \<in> set (rmatch b ic st1))"
  by auto

lemma in_Cap:
  "st' \<in> set (rmatch (Cap n a) ic st) \<longleftrightarrow>
     (\<exists>st1 \<in> set (rmatch a ic st). st' = capture n st st1)"
  by auto

text \<open>What the two groups of the structured parse hold.\<close>

lemma netContents_groups:
  assumes "match raw netContents_re True = Some m"
  shows "(\<forall>c \<in> set (group m 1). is_digit c \<or> c = CHR ''.'') \<and>
         (\<forall>c \<in> set (group m 2). is_letter c)"
proof -
  let ?A = "Seq (Plus Digit) (Seq (Opt (Lit CHR ''.'')) (Star Digit))"
  let ?L = "Plus (Class [(CHR ''a'', CHR ''z''), (CHR ''A'', CHR ''Z'')])"
  from assms obtain st where ex: "exec_from netContents_re True None raw = Some st"
    and m: "m = caps_of st"
    by (auto simp: match_def)
  from exec_from_member[OF ex] obtain p s where
    "st \<in> set (rmatch netContents_re True (p, s, []))" by blast
  note parts = this[unfolded netContents_re_def in_Seq in_Cap]
  from parts obtain x st2 st3 where
    x: "x \<in> set (rmatch (Cap 1 ?A) True (p, s, []))"
    and 2: "st2 \<in> set (rmatch (Star Space) True x)"
    and 3: "st3 \<in> set (rmatch ?L True st2)"
    and st: "st = capture 2 st2 st3"
    by blast
  from x obtain st1 where
    1: "st1 \<in> set (rmatch ?A True (p, s, []))" and x1: "x = capture 1 (p, s, []) st1"
    unfolding in_Cap by blast
  note 2 = 2[unfolded x1]
  from consumesD[OF consumes_volume 1] obtain u where
    u: "rest_of (p, s, []) = u @ rest_of st1" "\<forall>c \<in> set u. is_digit c \<or> c = CHR ''.''"
      "caps_of st1 = caps_of (p, s, [])" by blast
  have c1: "caps_of (capture 1 (p, s, []) st1) = [(1, u)]"
    using u(3) taken_is_consumed[OF u(1)] by (simp add: capture_def caps_of_def)
  from consumesD[OF consumes_spaces 2] have c2: "caps_of st2 = [(1, u)]"
    using c1 by auto
  from consumesD[OF consumes_plus[OF consumes_letters] 3] obtain v where
    v: "rest_of st2 = v @ rest_of st3" "\<forall>c \<in> set v. is_letter c" "caps_of st3 = caps_of st2"
    by blast
  have "m = [(2, v), (1, u)]"
    unfolding m st using v(3) c2 taken_is_consumed[OF v(1)]
    by (simp add: capture_def caps_of_def)
  with u(2) v(2) show ?thesis by (simp add: group_def)
qed

lemma normalized_letters:
  assumes "\<forall>c \<in> set u. is_letter c"
  shows "\<forall>c \<in> set (normalize_text (Some u)). \<not> syntax_char c"
proof
  fix c
  assume c: "c \<in> set (normalize_text (Some u))"
  have low: "is_letter (lower_char x)" if "is_letter x" for x
    using that
    by (auto simp: lower_char_def is_letter_def is_upper_def is_lower_def code_char_of)
  have "set (normalize_text (Some u)) \<subseteq> insert CHR '' '' (lower_char ` set u)"
  proof (cases "u = []")
    case True
    then show ?thesis by (simp add: normalize_text_def)
  next
    case False
    have "set (trim (collapse_spaces (strip_punctuation (toLowerCase u))))
            \<subseteq> insert CHR '' '' (set (strip_punctuation (toLowerCase u)))"
      using set_trim set_collapse_spaces by blast
    also have "\<dots> \<subseteq> insert CHR '' '' (lower_char ` set u)"
      by (auto simp: strip_punctuation_def toLowerCase_def)
    finally show ?thesis using False by (simp add: normalize_text_def)
  qed
  with c have "c = CHR '' '' \<or> c \<in> lower_char ` set u" by blast
  then show "\<not> syntax_char c"
  proof
    assume "c = CHR '' ''"
    then show ?thesis by (simp add: space_plain)
  next
    assume "c \<in> lower_char ` set u"
    then obtain x where "x \<in> set u" "c = lower_char x" by blast
    with assms have "is_letter c" by (simp add: low)
    then show ?thesis by (rule letter_plain)
  qed
qed

text \<open>Block 4 raises no error.\<close>

lemma net_check_returns: "\<exists>x. net_check nt raw nc om = Inr x"
proof (cases "match raw netContents_re True")
  case None
  then show ?thesis
    by (auto simp: net_check_def Let_def split: option.splits)
next
  case (Some m)
  from netContents_groups[OF Some]
  have v: "\<forall>c \<in> set (group m 1). is_digit c \<or> c = CHR ''.''"
    and u: "\<forall>c \<in> set (group m 2). is_letter c" by simp_all
  from searchRegex_builds[OF v normalized_letters[OF u]] obtain r where
    "RegExp (search_source (group m 1) (unit_pattern (normalize_text (Some (group m 2)))))
       = Some r" by blast
  with Some show ?thesis
    by (simp add: net_check_def Let_def)
qed

text \<open>
  The engine returns a report exactly when the form has a net contents property; the
  only error that it raises is the TypeError of an absent one.
\<close>

lemma performVerification_returns:
  "(\<exists>rep. performVerification t f = Inr rep) \<longleftrightarrow> netContents f \<noteq> None"
proof -
  obtain abvRegex where a:
    "RegExp (abv_source (trim (String_of (or_zero (alcoholContent f))))) = Some abvRegex"
    using abvRegex_builds[OF String_of_plain] by blast
  show ?thesis
  proof (cases "netContents f")
    case None
    with a show ?thesis
      by (simp add: performVerification_def Let_def case_prod_beta)
  next
    case (Some raw)
    let ?om = "snd (abv_check abvRegex t (trim (String_of (or_zero (alcoholContent f))))
      (snd (declared_check (normalize_text (Some t))
              (normalize_text (Some (or_empty (productClass f))))
         (snd (declared_check (normalize_text (Some t))
                 (normalize_text (Some (or_empty (brandName f)))) True)))))"
    obtain x where
      "net_check (normalize_text (Some t)) raw (normalize_text (Some raw)) ?om = Inr x"
      using net_check_returns by blast
    with a Some show ?thesis
      by (simp add: performVerification_def Let_def case_prod_beta or_empty_def)
  qed
qed

lemma performVerification_absent_net:
  assumes "netContents f = None"
  shows "performVerification t f = Inl TypeError"
proof -
  obtain abvRegex where
    "RegExp (abv_source (trim (String_of (or_zero (alcoholContent f))))) = Some abvRegex"
    using abvRegex_builds[OF String_of_plain] by blast
  with assms show ?thesis
    by (simp add: performVerification_def Let_def case_prod_beta)
qed

end
